theory Spec2Isabelle
  imports Main "HOL-Library.Product_Lexorder" "HOL-Library.Option_ord"
begin

section \<open>JavaScript strings and the regular expressions the services use\<close>

text \<open>
  A JavaScript string is a sequence of code units. The model uses \<open>string\<close>: a
  \<open>char\<close> stands for the code unit with the same number, so the strings of the model
  are the JavaScript strings over the Latin-1 range. All patterns and keywords of the
  services are ASCII.
\<close>

text \<open>
  The code units below 256 that \<open>String.prototype.trim\<close> strips and that \<open>\s\<close>
  matches: tab, line feed, vertical tab, form feed, carriage return, space and the
  no-break space.
\<close>

definition is_ws :: "char \<Rightarrow> bool" where
  "is_ws c = (c \<in> set [CHR 0x09, CHR 0x0A, CHR 0x0B, CHR 0x0C, CHR 0x0D, CHR 0x20, CHR 0xA0])"

definition trim :: "string \<Rightarrow> string" where
  "trim s = rev (dropWhile is_ws (rev (dropWhile is_ws s)))"

text \<open>The word characters of \<open>\b\<close>: letters, digits and the underscore.\<close>

definition is_word :: "char \<Rightarrow> bool" where
  "is_word c = (c \<in> set (''abcdefghijklmnopqrstuvwxyz'' @ ''ABCDEFGHIJKLMNOPQRSTUVWXYZ''
                            @ ''0123456789'' @ ''_''))"

text \<open>
  Under the \<open>i\<close> flag two code units match when they canonicalise to the same one.
  For an ASCII letter of the pattern these are its lower-case and its upper-case form,
  and for any other ASCII character of the pattern the character itself (a code unit
  above 127 never canonicalises to an ASCII one).
\<close>

definition ascii_upper :: "char \<Rightarrow> char" where
  "ascii_upper c =
     (case map_of (zip ''abcdefghijklmnopqrstuvwxyz'' ''ABCDEFGHIJKLMNOPQRSTUVWXYZ'') c of
        Some u \<Rightarrow> u | None \<Rightarrow> c)"

definition ascii_lower :: "char \<Rightarrow> char" where
  "ascii_lower c =
     (case map_of (zip ''ABCDEFGHIJKLMNOPQRSTUVWXYZ'' ''abcdefghijklmnopqrstuvwxyz'') c of
        Some l \<Rightarrow> l | None \<Rightarrow> c)"

text \<open>
  The fragment of the regular expression language that the denylist of the criteria
  evaluator is written in: single characters (exact, or case-insensitive and then given
  by their two forms), \<open>.\<close>, \<open>\s\<close>, a star or plus after one of these, \<open>\b\<close>,
  \<open>^\<close> and \<open>$\<close>.
\<close>

datatype cset = Exactly char | Nocase char char | AnyChar | Space

datatype atom = One cset | Star cset | Plus cset | Bound | Bol | Eol

fun in_cset :: "cset \<Rightarrow> char \<Rightarrow> bool" where
  "in_cset (Exactly p) c = (c = p)"
| "in_cset (Nocase l u) c = (c = l \<or> c = u)"
| "in_cset AnyChar c = (c \<noteq> CHR 0x0A \<and> c \<noteq> CHR 0x0D)"
| "in_cset Space c = is_ws c"

fun word_at :: "char option \<Rightarrow> bool" where
  "word_at None = False"
| "word_at (Some c) = is_word c"

fun next_char :: "string \<Rightarrow> char option" where
  "next_char [] = None"
| "next_char (c # cs) = Some c"

text \<open>
  \<open>match_here as prev text\<close>: the atoms match a prefix of \<open>text\<close>, where \<open>prev\<close> is the
  code unit before the current position (\<open>None\<close> at the start of the input).
\<close>

fun match_here :: "atom list \<Rightarrow> char option \<Rightarrow> string \<Rightarrow> bool" where
  "match_here [] prev text = True"
| "match_here (One k # as) prev [] = False"
| "match_here (One k # as) prev (t # ts) = (in_cset k t \<and> match_here as (Some t) ts)"
| "match_here (Star k # as) prev [] = match_here as prev []"
| "match_here (Star k # as) prev (t # ts) =
     (match_here as prev (t # ts) \<or> (in_cset k t \<and> match_here (Star k # as) (Some t) ts))"
| "match_here (Plus k # as) prev [] = False"
| "match_here (Plus k # as) prev (t # ts) = (in_cset k t \<and> match_here (Star k # as) (Some t) ts)"
| "match_here (Bound # as) prev text =
     (word_at prev \<noteq> word_at (next_char text) \<and> match_here as prev text)"
| "match_here (Bol # as) prev text = (prev = None \<and> match_here as prev text)"
| "match_here (Eol # as) prev text = (text = [] \<and> match_here as prev text)"

fun search :: "atom list \<Rightarrow> char option \<Rightarrow> string \<Rightarrow> bool" where
  "search as prev [] = match_here as prev []"
| "search as prev (t # ts) = (match_here as prev (t # ts) \<or> search as (Some t) ts)"

text \<open>\<open>RegExp.prototype.test\<close>: the pattern matches somewhere in the text.\<close>

definition regex_test :: "atom list \<Rightarrow> string \<Rightarrow> bool" where
  "regex_test as text = search as None text"

definition nocase :: "string \<Rightarrow> atom list" where
  "nocase s = map (\<lambda>c. One (Nocase (ascii_lower c) (ascii_upper c))) s"

definition exact :: "string \<Rightarrow> atom list" where
  "exact s = map (\<lambda>c. One (Exactly c)) s"

text \<open>
  \<open>new RegExp(pattern)\<close> for a pattern given as a string, on the fragment: ordinary
  characters, \<open>.\<close>, a star after a character or a dot, \<open>^\<close> and \<open>$\<close>. \<open>None\<close> is the
  SyntaxError of the constructor. A star with nothing to repeat is a SyntaxError in
  JavaScript too; the other metacharacters are outside the fragment, and this function
  refuses them although the engine accepts many of their uses. It serves only as a
  concrete engine in the examples: every general theorem below holds for any engine.
\<close>

fun compile_lite :: "string \<Rightarrow> atom list option" where
  "compile_lite [] = Some []"
| "compile_lite (c # rest) =
     (if c \<in> set (CHR 0x5C # ''+?()[]{}|*'') then None
      else (case rest of
              s # rest' \<Rightarrow>
                (if s = CHR ''*'' then
                   (if c = CHR ''^'' \<or> c = CHR ''$'' then None
                    else map_option ((#) (Star (if c = CHR ''.'' then AnyChar else Exactly c)))
                           (compile_lite rest'))
                 else map_option
                        ((#) (if c = CHR ''^'' then Bol else if c = CHR ''$'' then Eol
                              else if c = CHR ''.'' then One AnyChar else One (Exactly c)))
                        (compile_lite rest))
            | [] \<Rightarrow>
                Some [if c = CHR ''^'' then Bol else if c = CHR ''$'' then Eol
                      else if c = CHR ''.'' then One AnyChar else One (Exactly c)]))"

text \<open>
  \<open>new RegExp(pattern).test(text)\<close> inside a try block: \<open>None\<close> when the constructor
  throws, otherwise whether the pattern matches.
\<close>

definition js_regex_lite :: "string \<Rightarrow> string \<Rightarrow> bool option" where
  "js_regex_lite pattern text = map_option (\<lambda>as. regex_test as text) (compile_lite pattern)"

section \<open>Criteria evaluator (criteria-evaluator.service.js)\<close>

text \<open>\<open>DANGEROUS_PATTERNS\<close>, in the order of the source.\<close>

definition DANGEROUS_PATTERNS :: "atom list list" where
  "DANGEROUS_PATTERNS =
    [nocase ''require'' @ [Star Space] @ nocase ''('',
     nocase ''import'' @ [Plus Space],
     nocase ''import'' @ [Star Space] @ nocase ''('',
     nocase ''eval'' @ [Star Space] @ nocase ''('',
     nocase ''Function'' @ [Star Space] @ nocase ''('',
     nocase ''setTimeout'' @ [Star Space] @ nocase ''('',
     nocase ''setInterval'' @ [Star Space] @ nocase ''('',
     nocase ''setImmediate'' @ [Star Space] @ nocase ''('',
     nocase ''process.'',
     nocase ''global.'',
     nocase ''globalThis.'',
     exact ''this.'',
     nocase ''constructor'',
     nocase ''__proto__'',
     nocase ''prototype'',
     nocase ''Reflect.'',
     nocase ''Proxy'',
     [Bound] @ nocase ''fs'' @ [Bound],
     [Bound] @ nocase ''child_process'' @ [Bound],
     [Bound] @ nocase ''exec'' @ [Bound],
     [Bound] @ nocase ''spawn'' @ [Bound]]"

definition MAX_EXPRESSION_LENGTH :: nat where
  "MAX_EXPRESSION_LENGTH = 2000"

text \<open>
  The errors of \<open>validateCriteria\<close>, one constructor for each message of the source;
  the syntax error carries the message of the engine.
\<close>

datatype verror = Required | EmptyExpression | TooLong | DangerousPattern | SyntaxErr string

datatype validation = Valid | Invalid verror

text \<open>
  \<open>validateCriteria\<close>. The argument is \<open>None\<close> for a value that is not a string.
  The dry compile \<open>new Function('return ' + trimmed)\<close> belongs to the JavaScript
  engine and is the parameter \<open>new_Function\<close>: it returns the message of the
  SyntaxError, or \<open>None\<close> when the body compiles.
\<close>

definition validateCriteria :: "(string \<Rightarrow> string option) \<Rightarrow> string option \<Rightarrow> validation" where
  "validateCriteria new_Function expression =
     (case expression of
        None \<Rightarrow> Invalid Required
      | Some e \<Rightarrow>
          if e = [] then Invalid Required
          else let trimmed = trim e in
            if length trimmed = 0 then Invalid EmptyExpression
            else if length trimmed > MAX_EXPRESSION_LENGTH then Invalid TooLong
            else if list_ex (\<lambda>pattern. regex_test pattern trimmed) DANGEROUS_PATTERNS
              then Invalid DangerousPattern
            else (case new_Function (''return '' @ trimmed) of
                    Some msg \<Rightarrow> Invalid (SyntaxErr msg)
                  | None \<Rightarrow> Valid))"

text \<open>
  What the sandboxed run can do: complete with a value, of which \<open>evaluateCriteria\<close>
  keeps only \<open>Boolean(result)\<close>, or throw. A thrown value is \<open>null\<close> or
  \<open>undefined\<close>, or any other value, of which a handler reads the property
  \<open>message\<close> and prints it in a template string. The property is a value that prints
  (\<open>Message\<close>, with its text, or \<open>None\<close> when it is missing or falsy); or a truthy
  value that has no string form, such as a Symbol, on which the template string raises
  a TypeError (\<open>Unprintable\<close>); or its read or its conversion raises a value of its
  own, as a getter or a \<open>toString\<close> that throws does (\<open>Raising\<close>). The timeout of
  100ms and every error of the engine throw an Error object with a message.
\<close>

datatype thrown = ThrownNullish | ThrownValue message
  and message = Message "string option" | Unprintable | Raising thrown

datatype vm_outcome = Completes bool | Aborts thrown

datatype everror = ValidationFailed verror | RuntimeFailed string | UnknownFailure

record eval_result =
  success :: bool
  result :: bool
  error :: "everror option"

text \<open>
  A call either returns its value or lets an exception escape to its caller: a
  TypeError or a RangeError of the runtime, or a value thrown by the code under
  evaluation.
\<close>

datatype 'a outcome = Returns 'a | Escapes_TypeError | Escapes_RangeError | Escapes_Thrown thrown

text \<open>
  Reading \<open>error.message\<close> of a caught value and printing it, as the catch blocks of
  \<open>evaluateCriteria\<close> and of \<open>checkRoute\<close> do: the read is a TypeError on \<open>null\<close>
  and \<open>undefined\<close>.
\<close>

fun read_message :: "thrown \<Rightarrow> string option outcome" where
  "read_message ThrownNullish = Escapes_TypeError"
| "read_message (ThrownValue (Message m)) = Returns m"
| "read_message (ThrownValue Unprintable) = Escapes_TypeError"
| "read_message (ThrownValue (Raising w)) = Escapes_Thrown w"

text \<open>
  \<open>evaluateCriteria\<close>. The body of the try block (building the sandbox and
  \<open>vm.runInContext\<close> with its timeout) is the parameter \<open>run\<close>. The catch block
  reads and prints \<open>error.message\<close>, with \<open>'Error desconocido'\<close> for a falsy one;
  nothing encloses the catch block, so what that raises escapes.
\<close>

definition evaluateCriteria ::
  "(string \<Rightarrow> string option) \<Rightarrow> (string \<Rightarrow> 'ctx \<Rightarrow> vm_outcome) \<Rightarrow> string option \<Rightarrow> 'ctx
     \<Rightarrow> eval_result outcome" where
  "evaluateCriteria new_Function run expression context =
     (case validateCriteria new_Function expression of
        Invalid e \<Rightarrow> Returns \<lparr>success = False, result = False, error = Some (ValidationFailed e)\<rparr>
      | Valid \<Rightarrow>
          (case expression of
             None \<Rightarrow> Returns \<lparr>success = False, result = False, error = Some (ValidationFailed Required)\<rparr>
           | Some e \<Rightarrow>
               (case run e context of
                  Completes b \<Rightarrow> Returns \<lparr>success = True, result = b, error = None\<rparr>
                | Aborts v \<Rightarrow>
                    (case read_message v of
                       Returns (Some msg) \<Rightarrow>
                         Returns \<lparr>success = False, result = False, error = Some (RuntimeFailed msg)\<rparr>
                     | Returns None \<Rightarrow>
                         Returns \<lparr>success = False, result = False, error = Some UnknownFailure\<rparr>
                     | Escapes_TypeError \<Rightarrow> Escapes_TypeError
                     | Escapes_RangeError \<Rightarrow> Escapes_RangeError
                     | Escapes_Thrown w \<Rightarrow> Escapes_Thrown w))))"

text \<open>
  A fragment of the engine for the examples: the function bodies listed compile, as
  they do in JavaScript, and for any other body this sample reports a SyntaxError.
\<close>

definition new_Function_sample :: "string \<Rightarrow> string option" where
  "new_Function_sample body =
     (if body \<in> set [''return true'', ''return body.import'', ''return (() => { throw null })()'']
      then None else Some ''Unexpected token'')"

text \<open>
  A fragment of the sandbox for the examples: \<open>true\<close> completes with \<open>true\<close>, the
  arrow function that throws \<open>null\<close> throws \<open>null\<close>, and every other expression is
  reported as throwing a ReferenceError.
\<close>

definition run_sample :: "string \<Rightarrow> unit \<Rightarrow> vm_outcome" where
  "run_sample e context =
     (if e = ''true'' then Completes True
      else if e = ''(() => { throw null })()'' then Aborts ThrownNullish
      else Aborts (ThrownValue (Message (Some ''x is not defined''))))"

section \<open>Rule matcher (sqlite.service.js, getRuta)\<close>

text \<open>
  A row of the table \<open>rutas\<close>, with the columns the engine reads. \<open>tipo\<close>, \<open>ruta\<close>,
  \<open>codigo\<close> and \<open>tiporespuesta\<close> are declared NOT NULL; a nullable column is an
  \<open>option\<close>, with \<open>None\<close> for NULL.
\<close>

record ruta_row =
  row_id :: int
  tipo :: string
  ruta :: string
  codigo :: string
  tiporespuesta :: string
  respuesta :: "string option"
  esperaActiva :: "int option"
  isRegex :: "int option"
  customHeaders :: "string option"
  activo :: "int option"
  orden :: "int option"

text \<open>\<open>COALESCE(orden, 999999)\<close>.\<close>

definition coalesce_orden :: "ruta_row \<Rightarrow> int" where
  "coalesce_orden r = (case orden r of None \<Rightarrow> 999999 | Some n \<Rightarrow> n)"

text \<open>\<open>(activo IS NULL OR activo = 1)\<close> and \<open>(tipo = ? OR tipo = 'any')\<close>.\<close>

definition row_active :: "ruta_row \<Rightarrow> bool" where
  "row_active r = (activo r = None \<or> activo r = Some 1)"

definition tipo_matches :: "string \<Rightarrow> ruta_row \<Rightarrow> bool" where
  "tipo_matches t r = (tipo r = t \<or> tipo r = ''any'')"

text \<open>
  The first query of \<open>getRuta\<close>, run with \<open>db.get\<close>: the rows that satisfy the WHERE
  clause, ordered by \<open>CASE WHEN tipo = ? THEN 0 ELSE 1 END, COALESCE(orden, 999999)\<close>,
  and the first of them (LIMIT 1). SQL leaves the order of rows with equal keys open;
  the model keeps the order of the table for them, and no theorem below depends on it.
\<close>

definition exact_where :: "string \<Rightarrow> string \<Rightarrow> ruta_row \<Rightarrow> bool" where
  "exact_where rutaSinQuery t r =
     (ruta r = rutaSinQuery \<and> tipo_matches t r \<and> (isRegex r = None \<or> isRegex r = Some 0)
      \<and> row_active r)"

definition exact_key :: "string \<Rightarrow> ruta_row \<Rightarrow> nat \<times> int" where
  "exact_key t r = (if tipo r = t then 0 else 1, coalesce_orden r)"

definition exact_query :: "ruta_row list \<Rightarrow> string \<Rightarrow> string \<Rightarrow> ruta_row option" where
  "exact_query rutas rutaSinQuery t =
     (case sort_key (exact_key t) (filter (exact_where rutaSinQuery t) rutas) of
        [] \<Rightarrow> None
      | r # _ \<Rightarrow> Some r)"

text \<open>The second query, run with \<open>db.all\<close>: the active regex rows of the method, by priority.\<close>

definition regex_where :: "string \<Rightarrow> ruta_row \<Rightarrow> bool" where
  "regex_where t r = (isRegex r = Some 1 \<and> tipo_matches t r \<and> row_active r)"

definition regex_query :: "ruta_row list \<Rightarrow> string \<Rightarrow> ruta_row list" where
  "regex_query rutas t = sort_key coalesce_orden (filter (regex_where t) rutas)"

text \<open>
  The loop over the regex rows. The engine is the parameter \<open>re\<close>: \<open>re pattern text\<close>
  is \<open>None\<close> when \<open>new RegExp(pattern)\<close> throws (the catch block logs and the loop goes
  on), and otherwise the result of \<open>test\<close>.
\<close>

fun regex_loop :: "(string \<Rightarrow> string \<Rightarrow> bool option) \<Rightarrow> string \<Rightarrow> ruta_row list \<Rightarrow> ruta_row option" where
  "regex_loop re url [] = None"
| "regex_loop re url (route # rest) =
     (case re (ruta route) url of
        Some True \<Rightarrow> Some route
      | Some False \<Rightarrow> regex_loop re url rest
      | None \<Rightarrow> regex_loop re url rest)"

text \<open>\<open>ruta.split("?")[0]\<close>: the text before the first question mark.\<close>

definition strip_query :: "string \<Rightarrow> string" where
  "strip_query url = takeWhile (\<lambda>c. c \<noteq> CHR ''?'') url"

definition getRuta ::
  "(string \<Rightarrow> string \<Rightarrow> bool option) \<Rightarrow> ruta_row list \<Rightarrow> string \<Rightarrow> string \<Rightarrow> ruta_row option" where
  "getRuta re rutas url t =
     (let rutaSinQuery = strip_query url in
      case exact_query rutas rutaSinQuery t of
        Some r \<Rightarrow> Some r
      | None \<Rightarrow> regex_loop re url (regex_query rutas t))"

text \<open>Rows for the examples.\<close>

definition mk_ruta :: "int \<Rightarrow> string \<Rightarrow> string \<Rightarrow> int option \<Rightarrow> int option \<Rightarrow> ruta_row" where
  "mk_ruta i t p rx ord =
     \<lparr>row_id = i, tipo = t, ruta = p, codigo = ''200'', tiporespuesta = ''json'',
      respuesta = Some ''{}'', esperaActiva = None, isRegex = rx, customHeaders = None,
      activo = Some 1, orden = ord\<rparr>"

section \<open>Conditional overrides (routes.middleware.js and the proxy middleware)\<close>

text \<open>
  A row of \<open>conditional_responses\<close> or of \<open>proxy_fallback_conditions\<close> (the two tables
  have the same columns; \<open>c_parent\<close> is \<open>route_id\<close> or \<open>fallback_id\<close>).
\<close>

record condition =
  c_id :: int
  c_parent :: int
  c_orden :: "int option"
  c_nombre :: "string option"
  criteria :: string
  c_codigo :: "string option"
  c_tiporespuesta :: "string option"
  c_respuesta :: "string option"
  c_customHeaders :: "string option"
  c_activo :: "int option"

text \<open>
  \<open>getConditionalResponses\<close> and \<open>getFallbackConditions\<close>: the rows of the parent with
  \<open>(activo = 1 OR activo IS NULL)\<close>, \<open>ORDER BY orden ASC\<close>. SQLite puts NULL first in
  ascending order, as the order on \<open>option\<close> does with \<open>None\<close>.
\<close>

definition getConditionalResponses :: "condition list \<Rightarrow> int \<Rightarrow> condition list" where
  "getConditionalResponses table parent =
     sort_key c_orden
       (filter (\<lambda>c. c_parent c = parent \<and> (c_activo c = Some 1 \<or> c_activo c = None)) table)"

text \<open>The truthiness of a nullable text column: neither NULL nor the empty string.\<close>

definition truthy :: "string option \<Rightarrow> bool" where
  "truthy v = (case v of None \<Rightarrow> False | Some s \<Rightarrow> s \<noteq> [])"

text \<open>
  The four response variables. A status code is a JavaScript number, the result of
  \<open>Number\<close> or \<open>parseInt\<close> on a column; the model takes the two conversions as
  parameters with values in \<open>int option\<close>, \<open>None\<close> for NaN.
\<close>

record response =
  responseCode :: "int option"
  responseType :: string
  responseBody :: "string option"
  responseHeaders :: "string option"

text \<open>The overrides of a matched condition in \<open>checkRoute\<close>.\<close>

definition apply_condition :: "(string \<Rightarrow> int option) \<Rightarrow> condition \<Rightarrow> response \<Rightarrow> response" where
  "apply_condition Number c r =
     r\<lparr>responseCode := (case c_codigo c of
                           Some s \<Rightarrow> if s \<noteq> [] then Number s else responseCode r
                         | None \<Rightarrow> responseCode r),
       responseType := (case c_tiporespuesta c of
                           Some s \<Rightarrow> if s \<noteq> [] then s else responseType r
                         | None \<Rightarrow> responseType r),
       responseBody := (case c_respuesta c of
                           Some s \<Rightarrow> Some s
                         | None \<Rightarrow> responseBody r),
       responseHeaders := (if truthy (c_customHeaders c) then c_customHeaders c
                           else responseHeaders r)\<rparr>"

text \<open>
  The loop of \<open>checkRoute\<close> over the conditions: the first condition whose evaluation
  returns \<open>success\<close> and \<open>result\<close> is applied and ends the loop. An exception that
  escapes \<open>evaluateCriteria\<close> escapes the loop.
\<close>

fun route_conditions_loop ::
  "(string \<Rightarrow> string option) \<Rightarrow> (string \<Rightarrow> 'ctx \<Rightarrow> vm_outcome) \<Rightarrow> (string \<Rightarrow> int option) \<Rightarrow> 'ctx
     \<Rightarrow> condition list \<Rightarrow> response \<Rightarrow> response outcome" where
  "route_conditions_loop nf run Number ctx [] r = Returns r"
| "route_conditions_loop nf run Number ctx (c # cs) r =
     (case evaluateCriteria nf run (Some (criteria c)) ctx of
        Returns evalResult \<Rightarrow>
          if success evalResult \<and> result evalResult then Returns (apply_condition Number c r)
          else route_conditions_loop nf run Number ctx cs r
      | Escapes_TypeError \<Rightarrow> Escapes_TypeError
      | Escapes_RangeError \<Rightarrow> Escapes_RangeError
      | Escapes_Thrown v \<Rightarrow> Escapes_Thrown v)"

text \<open>The defaults of a route.\<close>

definition route_defaults :: "(string \<Rightarrow> int option) \<Rightarrow> ruta_row \<Rightarrow> response" where
  "route_defaults Number rute =
     \<lparr>responseCode = Number (codigo rute), responseType = tiporespuesta rute,
      responseBody = respuesta rute, responseHeaders = customHeaders rute\<rparr>"

text \<open>
  The condition stage of \<open>checkRoute\<close>: the loop runs inside a try block whose catch
  block prints \<open>condErr.message\<close> and goes on with the response variables, which
  still hold the defaults, since the loop assigns them only after the last call of the
  evaluator. The catch block itself raises when that read or print does.
\<close>

definition route_conditions_stage ::
  "(string \<Rightarrow> string option) \<Rightarrow> (string \<Rightarrow> 'ctx \<Rightarrow> vm_outcome) \<Rightarrow> (string \<Rightarrow> int option) \<Rightarrow> 'ctx
     \<Rightarrow> condition list \<Rightarrow> ruta_row \<Rightarrow> response outcome" where
  "route_conditions_stage nf run Number ctx table rute =
     (case route_conditions_loop nf run Number ctx (getConditionalResponses table (row_id rute))
             (route_defaults Number rute) of
        Returns r \<Rightarrow> Returns r
      | Escapes_TypeError \<Rightarrow> Returns (route_defaults Number rute)
      | Escapes_RangeError \<Rightarrow> Returns (route_defaults Number rute)
      | Escapes_Thrown v \<Rightarrow>
          (case read_message v of
             Returns m \<Rightarrow> Returns (route_defaults Number rute)
           | Escapes_TypeError \<Rightarrow> Escapes_TypeError
           | Escapes_RangeError \<Rightarrow> Escapes_RangeError
           | Escapes_Thrown w \<Rightarrow> Escapes_Thrown w))"

section \<open>Proxy fallbacks (proxy middleware and sqlite.service.js)\<close>

text \<open>
  The column \<open>error_types\<close> is a text; \<open>findMatchingFallback\<close> replaces it by
  \<open>JSON.parse\<close> of it, or by the empty array when that throws. The model keeps the
  outcome of the parse: \<open>NotJSON\<close> when it throws, an array (of which only the
  strings can equal an error type), a JSON string, or any other JSON value.
\<close>

datatype error_types_value = NotJSON | StringArray "string list" | JSONString string | OtherJSON

record fallback =
  f_id :: int
  f_route :: int
  f_orden :: "int option"
  f_nombre :: "string option"
  path_pattern :: string
  error_types :: error_types_value
  f_codigo :: "string option"
  f_tiporespuesta :: "string option"
  f_respuesta :: "string option"
  f_customHeaders :: "string option"
  f_activo :: "int option"
  conditions :: "condition list"

text \<open>\<open>getProxyFallbacks\<close>: the active fallbacks of a route, \<open>ORDER BY orden ASC\<close>.\<close>

definition getProxyFallbacks :: "fallback list \<Rightarrow> int \<Rightarrow> fallback list" where
  "getProxyFallbacks table routeId =
     sort_key f_orden
       (filter (\<lambda>f. f_route f = routeId \<and> (f_activo f = Some 1 \<or> f_activo f = None)) table)"

text \<open>
  The fallbacks of a proxy configuration as \<open>loadProxyConfigs\<close> builds them: the rows
  of \<open>getProxyFallbacks\<close> with \<open>activo === 1\<close>, each with its conditions.
\<close>

definition loadFallbacks :: "fallback list \<Rightarrow> condition list \<Rightarrow> int \<Rightarrow> fallback list" where
  "loadFallbacks table cond_table routeId =
     map (\<lambda>f. f\<lparr>conditions := getConditionalResponses cond_table (f_id f)\<rparr>)
       (filter (\<lambda>f. f_activo f = Some 1) (getProxyFallbacks table routeId))"

text \<open>\<open>String.prototype.includes\<close>: the second string occurs in the first.\<close>

fun str_includes :: "string \<Rightarrow> string \<Rightarrow> bool" where
  "str_includes [] s = (s = [])"
| "str_includes (t # ts) s = (take (length s) (t # ts) = s \<or> str_includes ts s)"

text \<open>
  \<open>errorTypes.includes(errorType) || errorTypes.includes('all')\<close>; \<open>None\<close> when the
  parsed value has no method \<open>includes\<close>, which is a TypeError.
\<close>

fun error_type_applies :: "error_types_value \<Rightarrow> string \<Rightarrow> bool option" where
  "error_type_applies NotJSON errorType = Some False"
| "error_type_applies (StringArray ts) errorType = Some (errorType \<in> set ts \<or> ''all'' \<in> set ts)"
| "error_type_applies (JSONString s) errorType =
     Some (str_includes s errorType \<or> str_includes s ''all'')"
| "error_type_applies OtherJSON errorType = None"

text \<open>
  \<open>findMatchingFallback\<close>, the loop over \<open>config.fallbacks\<close>. The test of the error
  types is outside the try block, the regular expression inside it.
\<close>

fun findMatchingFallback ::
  "(string \<Rightarrow> string \<Rightarrow> bool option) \<Rightarrow> fallback list \<Rightarrow> string \<Rightarrow> string \<Rightarrow> fallback option outcome" where
  "findMatchingFallback re [] subPath errorType = Returns None"
| "findMatchingFallback re (f # rest) subPath errorType =
     (case error_type_applies (error_types f) errorType of
        None \<Rightarrow> Escapes_TypeError
      | Some False \<Rightarrow> findMatchingFallback re rest subPath errorType
      | Some True \<Rightarrow>
          (case re (path_pattern f) subPath of
             Some True \<Rightarrow> Returns (Some f)
           | Some False \<Rightarrow> findMatchingFallback re rest subPath errorType
           | None \<Rightarrow> findMatchingFallback re rest subPath errorType))"

text \<open>\<open>getErrorType\<close>, on the error code, the error message and the status code.\<close>

definition getErrorType :: "(string option \<times> string option) option \<Rightarrow> int option \<Rightarrow> string option" where
  "getErrorType err statusCode =
     (let from_status =
            (case statusCode of
               Some n \<Rightarrow> if n \<noteq> 0 \<and> n \<ge> 500 \<and> n < 600 then Some ''http5xx'' else None
             | None \<Rightarrow> None)
      in case err of
           Some (code, message) \<Rightarrow>
             if code = Some ''ETIMEDOUT'' \<or> code = Some ''ESOCKETTIMEDOUT'' \<or> message = Some ''TIMEOUT''
               then Some ''timeout''
             else if code = Some ''ECONNREFUSED'' \<or> code = Some ''ENOTFOUND''
                     \<or> code = Some ''ECONNRESET'' \<or> code = Some ''EHOSTUNREACH''
               then Some ''connection''
             else from_status
         | None \<Rightarrow> from_status)"

text \<open>The defaults of a fallback in \<open>sendFallbackResponse\<close>.\<close>

definition fallback_defaults :: "(string \<Rightarrow> int option) \<Rightarrow> fallback \<Rightarrow> response" where
  "fallback_defaults parseInt f =
     \<lparr>responseCode =
        (case f_codigo f of
           None \<Rightarrow> Some 200
         | Some s \<Rightarrow> (case parseInt s of
                        None \<Rightarrow> Some 200
                      | Some n \<Rightarrow> if n = 0 then Some 200 else Some n)),
      responseType = (case f_tiporespuesta f of
                        None \<Rightarrow> ''json''
                      | Some s \<Rightarrow> if s \<noteq> [] then s else ''json''),
      responseBody = (if truthy (f_respuesta f) then f_respuesta f else Some []),
      responseHeaders = f_customHeaders f\<rparr>"

text \<open>The overrides of a matched condition in \<open>sendFallbackResponse\<close>.\<close>

definition apply_fallback_condition ::
  "(string \<Rightarrow> int option) \<Rightarrow> condition \<Rightarrow> response \<Rightarrow> response" where
  "apply_fallback_condition parseInt c r =
     r\<lparr>responseCode := (case c_codigo c of
                           Some s \<Rightarrow> if s \<noteq> [] then parseInt s else responseCode r
                         | None \<Rightarrow> responseCode r),
       responseType := (case c_tiporespuesta c of
                           Some s \<Rightarrow> if s \<noteq> [] then s else responseType r
                         | None \<Rightarrow> responseType r),
       responseBody := (if truthy (c_respuesta c) then c_respuesta c else responseBody r),
       responseHeaders := (if truthy (c_customHeaders c) then c_customHeaders c
                           else responseHeaders r)\<rparr>"

text \<open>
  The loop of \<open>sendFallbackResponse\<close> over the conditions of the fallback. A condition
  with a falsy \<open>activo\<close> is skipped. No try block encloses the loop.
\<close>

fun fallback_conditions_loop ::
  "(string \<Rightarrow> string option) \<Rightarrow> (string \<Rightarrow> 'ctx \<Rightarrow> vm_outcome) \<Rightarrow> (string \<Rightarrow> int option) \<Rightarrow> 'ctx
     \<Rightarrow> condition list \<Rightarrow> response \<Rightarrow> response outcome" where
  "fallback_conditions_loop nf run parseInt ctx [] r = Returns r"
| "fallback_conditions_loop nf run parseInt ctx (c # cs) r =
     (if c_activo c = None \<or> c_activo c = Some 0
        then fallback_conditions_loop nf run parseInt ctx cs r
      else (case evaluateCriteria nf run (Some (criteria c)) ctx of
              Returns evalResult \<Rightarrow>
                if success evalResult \<and> result evalResult
                  then Returns (apply_fallback_condition parseInt c r)
                else fallback_conditions_loop nf run parseInt ctx cs r
            | Escapes_TypeError \<Rightarrow> Escapes_TypeError
            | Escapes_RangeError \<Rightarrow> Escapes_RangeError
            | Escapes_Thrown v \<Rightarrow> Escapes_Thrown v))"

definition fallback_conditions_stage ::
  "(string \<Rightarrow> string option) \<Rightarrow> (string \<Rightarrow> 'ctx \<Rightarrow> vm_outcome) \<Rightarrow> (string \<Rightarrow> int option) \<Rightarrow> 'ctx
     \<Rightarrow> fallback \<Rightarrow> response outcome" where
  "fallback_conditions_stage nf run parseInt ctx f =
     fallback_conditions_loop nf run parseInt ctx (conditions f) (fallback_defaults parseInt f)"

text \<open>Rows for the examples.\<close>

definition mk_fallback :: "int \<Rightarrow> int option \<Rightarrow> string list \<Rightarrow> string \<Rightarrow> fallback" where
  "mk_fallback i ord types pattern =
     \<lparr>f_id = i, f_route = 1, f_orden = ord, f_nombre = None, path_pattern = pattern,
      error_types = StringArray types, f_codigo = Some ''200'', f_tiporespuesta = Some ''json'',
      f_respuesta = None, f_customHeaders = None, f_activo = Some 1, conditions = []\<rparr>"

definition mk_condition :: "int \<Rightarrow> int option \<Rightarrow> string \<Rightarrow> string option \<Rightarrow> condition" where
  "mk_condition i ord crit code =
     \<lparr>c_id = i, c_parent = 1, c_orden = ord, c_nombre = None, criteria = crit, c_codigo = code,
      c_tiporespuesta = None, c_respuesta = None, c_customHeaders = None, c_activo = Some 1\<rparr>"

text \<open>Decimal numerals of the examples, for \<open>Number\<close> and \<open>parseInt\<close>.\<close>

definition number_sample :: "string \<Rightarrow> int option" where
  "number_sample s = map_of [(''200'', 200), (''404'', 404), (''301'', 301), (''503'', 503)] s"

section \<open>The proxy exchange: timer, response and error callbacks\<close>

text \<open>
  The variables that the three callbacks of \<open>proxyHandler\<close> share, and what the
  runtime knows of the exchange: whether the timer is still scheduled, and whether the
  upstream request can still deliver its response (it cannot after its response, after
  an error, or after \<open>proxyReq.destroy()\<close>). \<open>renders\<close> counts the responses written
  to the caller: each of \<open>res.writeHead\<close>, \<open>sendFallbackResponse\<close> and
  \<open>res.status(..).json(..)\<close> is one, and each sets \<open>res.headersSent\<close>.
\<close>

record exchange =
  timeoutTriggered :: bool
  timeoutId :: bool
  timer_scheduled :: bool
  headersSent :: bool
  upstream_open :: bool
  renders :: nat

definition render :: "exchange \<Rightarrow> exchange" where
  "render x = x\<lparr>headersSent := True, renders := Suc (renders x)\<rparr>"

text \<open>\<open>if (timeoutId) { clearTimeout(timeoutId); timeoutId = null; }\<close>\<close>

definition clear_timer :: "exchange \<Rightarrow> exchange" where
  "clear_timer x = (if timeoutId x then x\<lparr>timeoutId := False, timer_scheduled := False\<rparr> else x)"

text \<open>
  What the search for a fallback and \<open>sendFallbackResponse\<close> come to inside a
  callback: no fallback matches; a fallback matches and its response is written; or the
  search or the rendering raises before it writes anything (the error types of a
  fallback are not an array, an exception escapes the evaluation of a condition, or
  \<open>res.writeHead\<close> refuses the status code), which ends the callback.
\<close>

datatype fallback_attempt = NoFallback | FallbackSent | FallbackRaises

text \<open>
  The response callback: it clears the timer and writes either the fallback (status
  5xx with a matching fallback) or the head of the upstream response. Before it writes
  that head it applies the custom headers of the rule, which raises for an entry
  without a name: \<open>head_raises\<close>. It tests neither \<open>timeoutTriggered\<close> nor
  \<open>res.headersSent\<close>.
\<close>

definition on_response :: "int \<Rightarrow> fallback_attempt \<Rightarrow> bool \<Rightarrow> exchange \<Rightarrow> exchange" where
  "on_response statusCode fallback head_raises x =
     (let x1 = clear_timer x;
          upstream_head = (if head_raises then x1 else render x1)
      in if statusCode \<ge> 500 \<and> statusCode < 600 then
           (case fallback of
              FallbackSent \<Rightarrow> render x1
            | FallbackRaises \<Rightarrow> x1
            | NoFallback \<Rightarrow> upstream_head)
         else upstream_head)"

text \<open>
  The timer callback: when no header has been sent it sets \<open>timeoutTriggered\<close>,
  destroys the upstream request and writes the fallback or the 504.
\<close>

definition on_timeout :: "fallback_attempt \<Rightarrow> exchange \<Rightarrow> exchange" where
  "on_timeout fallback x =
     (if \<not> headersSent x then
        (let x1 = x\<lparr>timeoutTriggered := True, upstream_open := False\<rparr> in
         case fallback of
           FallbackSent \<Rightarrow> render x1
         | FallbackRaises \<Rightarrow> x1
         | NoFallback \<Rightarrow> render x1)
      else x)"

text \<open>
  The error callback: it clears the timer, returns when the timer has fired, and
  otherwise writes the fallback (when the error has a type and a fallback matches) or
  the 502, each only when no header has been sent.
\<close>

definition on_error :: "string option \<Rightarrow> fallback_attempt \<Rightarrow> exchange \<Rightarrow> exchange" where
  "on_error errorType fallback x =
     (let x1 = clear_timer x;
          bad_gateway = (if \<not> headersSent x1 then render x1 else x1)
      in if timeoutTriggered x1 then x1
         else (case errorType of
                 None \<Rightarrow> bad_gateway
               | Some t \<Rightarrow>
                   (case fallback of
                      NoFallback \<Rightarrow> bad_gateway
                    | FallbackRaises \<Rightarrow> x1
                    | FallbackSent \<Rightarrow> if \<not> headersSent x1 then render x1 else x1)))"

text \<open>
  The events of one exchange, as the event loop of Node delivers them, each callback
  running to its end before the next: the timer fires only while it is scheduled, and
  then no more; the response arrives only while the upstream request is open, and at
  most once; an error of the upstream request may come at any time and closes it.
  \<open>None\<close> is an event that the runtime cannot deliver in the state.
\<close>

datatype event =
    Response int fallback_attempt bool
  | TimerFires fallback_attempt
  | UpstreamError "string option" fallback_attempt

fun deliver :: "event \<Rightarrow> exchange \<Rightarrow> exchange option" where
  "deliver (Response statusCode fb head_raises) x =
     (if upstream_open x
        then Some (on_response statusCode fb head_raises (x\<lparr>upstream_open := False\<rparr>))
      else None)"
| "deliver (TimerFires fb) x =
     (if timer_scheduled x then Some (on_timeout fb (x\<lparr>timer_scheduled := False\<rparr>))
      else None)"
| "deliver (UpstreamError errorType fb) x =
     Some (on_error errorType fb (x\<lparr>upstream_open := False\<rparr>))"

fun deliver_all :: "event list \<Rightarrow> exchange \<Rightarrow> exchange option" where
  "deliver_all [] x = Some x"
| "deliver_all (e # es) x = (case deliver e x of None \<Rightarrow> None | Some x' \<Rightarrow> deliver_all es x')"

text \<open>The exchange when \<open>proxyHandler\<close> has sent the request and set the timer.\<close>

definition exchange_start :: exchange where
  "exchange_start =
     \<lparr>timeoutTriggered = False, timeoutId = True, timer_scheduled = True, headersSent = False,
      upstream_open = True, renders = 0\<rparr>"

section \<open>Active-wait registry (semaphore.service.js)\<close>

text \<open>
  The elements of the wait list are objects that the parked call and the list share, so
  the model has a store of objects and the list holds references. \<open>sleep\<close> is
  \<open>True\<close> when the property is strictly equal to \<open>true\<close>. Besides the store and the
  list the state records the calls of \<open>addToListAndWait\<close>: \<open>parked\<close> are the calls
  suspended in the loop, by their element, and \<open>returned\<close> the calls that have
  returned, in the order of their return. The registry is taken after \<open>init\<close>.
\<close>

type_synonym ref = nat

record 'r item =
  item_id :: string
  sleep :: bool
  customResponse :: "'r option"

record 'r registry =
  objects :: "ref \<Rightarrow> 'r item option"
  waitList :: "ref list"
  parked :: "ref list"
  returned :: "ref list"

definition registry_init :: "'r registry" where
  "registry_init = \<lparr>objects = (\<lambda>r. None), waitList = [], parked = [], returned = []\<rparr>"

definition id_of :: "'r registry \<Rightarrow> ref \<Rightarrow> string option" where
  "id_of s e = map_option item_id (objects s e)"

text \<open>
  The end of \<open>addToListAndWait\<close>: the list loses every element with the id of the
  element of the call, and the call returns.
\<close>

definition leave :: "ref \<Rightarrow> 'r registry \<Rightarrow> 'r registry" where
  "leave r s = s\<lparr>waitList := filter (\<lambda>e. id_of s e \<noteq> id_of s r) (waitList s),
                 returned := returned s @ [r]\<rparr>"

text \<open>
  \<open>addToListAndWait\<close> up to its first suspension: it pushes the element and, when
  \<open>sleep\<close> is \<open>true\<close>, suspends for a second; otherwise it leaves at once.
\<close>

definition addToListAndWait :: "ref \<Rightarrow> 'r registry \<Rightarrow> 'r registry" where
  "addToListAndWait r s =
     (let s1 = s\<lparr>waitList := waitList s @ [r]\<rparr> in
      case objects s1 r of
        None \<Rightarrow> s1
      | Some element \<Rightarrow> if sleep element then s1\<lparr>parked := parked s1 @ [r]\<rparr> else leave r s1)"

text \<open>
  A suspended call wakes after its second and tests \<open>sleep\<close> again: it suspends again
  or leaves. There is nothing to wake for an element without a suspended call.
\<close>

definition poll :: "ref \<Rightarrow> 'r registry \<Rightarrow> 'r registry" where
  "poll r s =
     (if r \<in> set (parked s) then
        (case objects s r of
           None \<Rightarrow> s
         | Some element \<Rightarrow>
             if sleep element then s
             else leave r (s\<lparr>parked := remove1 r (parked s)\<rparr>))
      else s)"

text \<open>
  \<open>wakeUp\<close>. \<open>findInList\<close> is the first element of the list with the id. The
  argument \<open>customResponse\<close> is \<open>None\<close> for \<open>null\<close> and for a missing argument.
\<close>

definition findInList :: "'r registry \<Rightarrow> string \<Rightarrow> ref option" where
  "findInList s i = find (\<lambda>e. id_of s e = Some i) (waitList s)"

definition wakeUp :: "string \<Rightarrow> 'r option \<Rightarrow> 'r registry \<Rightarrow> bool \<times> 'r registry" where
  "wakeUp i custom s =
     (case findInList s i of
        None \<Rightarrow> (False, s)
      | Some e \<Rightarrow>
          (case objects s e of
             None \<Rightarrow> (False, s)
           | Some element \<Rightarrow>
               (True,
                s\<lparr>objects := (objects s)(e \<mapsto>
                     element\<lparr>customResponse :=
                                (case custom of None \<Rightarrow> customResponse element | Some c \<Rightarrow> Some c),
                             sleep := False\<rparr>)\<rparr>)))"

definition getList :: "'r registry \<Rightarrow> 'r item list" where
  "getList s = List.map_filter (objects s) (waitList s)"

text \<open>A caller creates the element and parks it.\<close>

definition park :: "ref \<Rightarrow> 'r item \<Rightarrow> 'r registry \<Rightarrow> 'r registry" where
  "park r element s = addToListAndWait r (s\<lparr>objects := (objects s)(r \<mapsto> element)\<rparr>)"

text \<open>
  The steps of the registry. \<open>run_distinct\<close> accepts the histories in which every
  parked element is a new object whose id no element of the list has (as the ids of
  \<open>generateUUID\<close> are), and in which only suspended calls are woken.
\<close>

datatype 'r step = Park ref "'r item" | Poll ref | WakeUp string "'r option"

fun do_step :: "'r step \<Rightarrow> 'r registry \<Rightarrow> 'r registry" where
  "do_step (Park r element) s = park r element s"
| "do_step (Poll r) s = poll r s"
| "do_step (WakeUp i custom) s = snd (wakeUp i custom s)"

fun step_distinct :: "'r step \<Rightarrow> 'r registry \<Rightarrow> bool" where
  "step_distinct (Park r element) s =
     (objects s r = None \<and> list_all (\<lambda>e. id_of s e \<noteq> Some (item_id element)) (waitList s))"
| "step_distinct (Poll r) s = (r \<in> set (parked s))"
| "step_distinct (WakeUp i custom) s = True"

fun run_distinct :: "'r step list \<Rightarrow> 'r registry \<Rightarrow> 'r registry option" where
  "run_distinct [] s = Some s"
| "run_distinct (a # as) s =
     (if step_distinct a s then run_distinct as (do_step a s) else None)"

section \<open>Rendering a resolved response (routes.middleware.js, checkRoute)\<close>


text \<open>
  The values that \<open>JSON.parse\<close> returns. A number is an integer here; an object is
  the list of its members, each name once.
\<close>

datatype json =
    JNull
  | JBool bool
  | JNumber int
  | JString string
  | JArray "json list"
  | JObject "(string \<times> json) list"













text \<open>
  What \<open>checkRoute\<close> answers once it has assigned \<open>res.statusCode\<close> and applied
  the headers. The redirect, the page and the file are described by the call made.
  The other three write the head and the body at once: \<open>SendJson\<close> is \<open>res.json\<close>,
  \<open>SendBody\<close> is \<open>res.type\<close> followed by \<open>res.send\<close>, \<open>EndEmpty\<close> is
  \<open>res.end\<close>; they carry the status code that the head has.

  For \<open>res.json\<close> the payload is the parsed data or the empty object; the reply has
  the value of its header \<open>Content-Type\<close>, if any, and its body is the serialisation of
  the payload by \<open>JSON.stringify\<close>, or there is no body.
\<close>

datatype json_payload = Parsed json | EmptyObject

record json_reply =
  status :: int
  content_type :: "json option"
  body :: "json_payload option"



















section \<open>Predicates of the specification, invariants and example data\<close>

text \<open>Rule sets for the examples of the rule matcher.\<close>

definition rutas_sample :: "ruta_row list" where
  "rutas_sample =
     [mk_ruta 1 ''any'' ''/a.*'' (Some 1) (Some 1),
      mk_ruta 2 ''any'' ''/api'' (Some 0) (Some 7),
      mk_ruta 3 ''get'' ''/api'' None (Some 9)]"

definition rutas_query_sample :: "ruta_row list" where
  "rutas_query_sample =
     [mk_ruta 1 ''get'' ''/a?q=1'' (Some 0) (Some 1),
      mk_ruta 2 ''get'' ''q=1$'' (Some 1) (Some 2)]"

text \<open>
  The condition of the specification on a fallback: its set of error types contains the
  classified error type or \<open>all\<close>, and its pattern matches the path. An
  \<open>error_types\<close> text that is not JSON stands for the empty set.
\<close>

definition is_type_set :: "error_types_value \<Rightarrow> bool" where
  "is_type_set v = (case v of NotJSON \<Rightarrow> True | StringArray ts \<Rightarrow> True | _ \<Rightarrow> False)"

definition type_set :: "error_types_value \<Rightarrow> string set" where
  "type_set v = (case v of StringArray ts \<Rightarrow> set ts | _ \<Rightarrow> {})"

definition fallback_applies ::
  "(string \<Rightarrow> string \<Rightarrow> bool option) \<Rightarrow> string \<Rightarrow> string \<Rightarrow> fallback \<Rightarrow> bool" where
  "fallback_applies re subPath errorType f =
     ((errorType \<in> type_set (error_types f) \<or> ''all'' \<in> type_set (error_types f))
      \<and> re (path_pattern f) subPath = Some True)"

text \<open>The two fallbacks of the example of the specification.\<close>

definition fallbacks_sample :: "fallback list" where
  "fallbacks_sample =
     [mk_fallback 1 (Some 0) [''timeout''] ''^/users/.*'',
      mk_fallback 2 (Some 1) [''all''] ''.*'']"

text \<open>
  Two fallbacks of one rule, both active and with a pattern that matches every path:
  the first was saved with an object as its error types, which is stored as the text
  of that object, the second is the generic fallback of the example.
\<close>

definition fallbacks_object_sample :: "fallback list" where
  "fallbacks_object_sample =
     [(mk_fallback 1 (Some 0) [] ''.*'')\<lparr>error_types := OtherJSON\<rparr>,
      mk_fallback 2 (Some 1) [''all''] ''.*'']"

text \<open>A fallback whose stored error types are the JSON string \<open>"timeouts"\<close>.\<close>

definition fallbacks_string_sample :: "fallback list" where
  "fallbacks_string_sample =
     [(mk_fallback 1 (Some 0) [] ''.*'')\<lparr>error_types := JSONString ''timeouts''\<rparr>]"

text \<open>
  The invariant of an exchange: a response has been written exactly when the headers
  are sent, and then the upstream request is closed, so that the response callback,
  the only one that writes without looking, can no longer run.
\<close>

definition exchange_inv :: "exchange \<Rightarrow> bool" where
  "exchange_inv x = (renders x = (if headersSent x then 1 else 0)
                     \<and> (headersSent x \<longrightarrow> \<not> upstream_open x))"

text \<open>An element for the examples of the registry.\<close>

definition element_sample :: "nat item" where
  "element_sample = \<lparr>item_id = ''abc'', sleep = True, customResponse = None\<rparr>"

text \<open>
  Registries for the examples: one with a parked element of another id; one in which
  a second element with the id \<open>abc\<close> is parked while the first is in the list, and
  the same after one release with that id and an override; and an element whose flag is
  not set.
\<close>

definition other_parked :: "nat registry" where
  "other_parked =
     park 0 \<lparr>item_id = ''other'', sleep = True, customResponse = None\<rparr> registry_init"

definition shared_id_parked :: "nat registry" where
  "shared_id_parked = park 1 element_sample (park 0 element_sample registry_init)"

definition shared_id_released :: "nat registry" where
  "shared_id_released = snd (wakeUp ''abc'' (Some 404) shared_id_parked)"

definition element_awake :: "nat item" where
  "element_awake = \<lparr>item_id = ''xyz'', sleep = False, customResponse = None\<rparr>"

text \<open>
  What holds in every state of a history with distinct ids: the elements of the list
  are objects, no two of them have the same id, and the list holds exactly the elements
  of the suspended calls, each once.
\<close>

definition registry_inv :: "'r registry \<Rightarrow> bool" where
  "registry_inv s =
     (list_all (\<lambda>e. objects s e \<noteq> None) (waitList s)
      \<and> distinct (map (id_of s) (waitList s))
      \<and> set (parked s) = set (waitList s)
      \<and> distinct (parked s))"

text \<open>Two elements with the same id, for the example of a history with a shared id.\<close>

definition shared_id_history :: "nat registry" where
  "shared_id_history =
     snd (wakeUp ''abc'' None (park 1 element_sample (park 0 element_sample registry_init)))"

text \<open>
  A route with two conditions for the examples: the first throws \<open>null\<close>, the second
  is \<open>true\<close> and sets the status code 404. The same conditions on a fallback.
\<close>

definition conditions_sample :: "condition list" where
  "conditions_sample =
     [mk_condition 1 (Some 0) ''(() => { throw null })()'' None,
      mk_condition 2 (Some 1) ''true'' (Some ''404'')]"

definition route_sample :: ruta_row where
  "route_sample = mk_ruta 1 ''get'' ''/a'' None (Some 1)"

definition fallback_sample :: fallback where
  "fallback_sample = (mk_fallback 1 (Some 0) [''all''] ''.*'')\<lparr>conditions := conditions_sample\<rparr>"

text \<open>A condition is accepted when its evaluation returns with success and a true result.\<close>

definition accepted ::
  "(string \<Rightarrow> string option) \<Rightarrow> (string \<Rightarrow> 'ctx \<Rightarrow> vm_outcome) \<Rightarrow> 'ctx \<Rightarrow> condition \<Rightarrow> bool" where
  "accepted nf run ctx c =
     (case evaluateCriteria nf run (Some (criteria c)) ctx of
        Returns evalResult \<Rightarrow> success evalResult \<and> result evalResult
      | Escapes_TypeError \<Rightarrow> False
      | Escapes_RangeError \<Rightarrow> False
      | Escapes_Thrown v \<Rightarrow> False)"

section \<open>Properties of the criteria evaluator\<close>

lemma trim_all_ws:
  assumes "\<forall>c\<in>set e. is_ws c"
  shows "trim e = []"
proof -
  from assms have d: "dropWhile is_ws e = []" by simp
  show ?thesis unfolding trim_def d by simp
qed

lemma trim_append_ws:
  assumes "\<forall>c\<in>set ws. is_ws c"
  shows "trim (s @ ws) = trim s"
proof (cases "\<forall>c\<in>set s. is_ws c")
  case True
  with assms have "\<forall>c\<in>set (s @ ws). is_ws c" by auto
  then have "trim (s @ ws) = []" by (rule trim_all_ws)
  moreover from True have "trim s = []" by (rule trim_all_ws)
  ultimately show ?thesis by simp
next
  case False
  then obtain x where "x \<in> set s" "\<not> is_ws x" by blast
  then have "dropWhile is_ws (s @ ws) = dropWhile is_ws s @ ws"
    by (rule dropWhile_append1)
  moreover from assms
  have "dropWhile is_ws (rev ws @ rev (dropWhile is_ws s)) = dropWhile is_ws (rev (dropWhile is_ws s))"
    by (intro dropWhile_append2) simp
  ultimately show ?thesis by (simp add: trim_def)
qed

lemma validate_by_trim:
  assumes "e \<noteq> []" "trim e = t" "t \<noteq> []" "length t \<le> 2000"
    and "\<not> list_ex (\<lambda>pattern. regex_test pattern t) DANGEROUS_PATTERNS"
    and "nf (''return '' @ t) = None"
  shows "validateCriteria nf (Some e) = Valid"
  using assms by (simp add: validateCriteria_def MAX_EXPRESSION_LENGTH_def)

lemma no_danger_true: "\<not> list_ex (\<lambda>pattern. regex_test pattern ''true'') DANGEROUS_PATTERNS"
  by code_simp

lemma trim_true: "trim ''true'' = ''true''"
  by code_simp

text \<open>
  Claim C7, as amended. \<open>validateCriteria\<close> rejects every value that is not a string,
  every empty or whitespace-only string, every string whose trimmed text is longer than
  2000 characters and every string whose trimmed text matches a pattern of the
  denylist; in each of these cases the verdict is reached without the syntax
  compilation, whatever the compiler would say.
\<close>

theorem validateCriteria_rejects_trimmed:
  assumes "expression = None
     \<or> (\<exists>e. expression = Some e \<and> (\<forall>c\<in>set e. is_ws c))
     \<or> (\<exists>e. expression = Some e \<and> length (trim e) > MAX_EXPRESSION_LENGTH)
     \<or> (\<exists>e pattern. expression = Some e \<and> pattern \<in> set DANGEROUS_PATTERNS
            \<and> regex_test pattern (trim e))"
  shows "\<exists>err. \<forall>new_Function. validateCriteria new_Function expression = Invalid err"
proof -
  consider (none) "expression = None"
    | (ws) e where "expression = Some e" "\<forall>c\<in>set e. is_ws c"
    | (long) e where "expression = Some e" "length (trim e) > MAX_EXPRESSION_LENGTH"
    | (pat) e pattern where "expression = Some e" "pattern \<in> set DANGEROUS_PATTERNS"
        "regex_test pattern (trim e)"
    using assms by blast
  then show ?thesis
  proof cases
    case none
    then show ?thesis by (simp add: validateCriteria_def)
  next
    case ws
    then have "trim e = []" by (simp add: trim_all_ws)
    with ws show ?thesis by (auto simp: validateCriteria_def)
  next
    case long
    then show ?thesis by (auto simp: validateCriteria_def Let_def)
  next
    case pat
    then have "list_ex (\<lambda>p. regex_test p (trim e)) DANGEROUS_PATTERNS"
      by (auto simp: list_ex_iff)
    with pat show ?thesis by (auto simp: validateCriteria_def Let_def)
  qed
qed

theorem validateCriteria_rejects_trimmed_witness:
  "(\<exists>pattern. pattern \<in> set DANGEROUS_PATTERNS \<and> regex_test pattern (trim ''process.exit()''))
   \<and> (\<exists>err. \<forall>new_Function. validateCriteria new_Function (Some ''process.exit()'') = Invalid err)"
proof -
  have m: "regex_test (nocase ''process.'') (trim ''process.exit()'')" by code_simp
  have p: "nocase ''process.'' \<in> set DANGEROUS_PATTERNS" by (simp add: DANGEROUS_PATTERNS_def)
  from m p
  have h: "\<exists>pattern. pattern \<in> set DANGEROUS_PATTERNS \<and> regex_test pattern (trim ''process.exit()'')"
    by blast
  then show ?thesis
    using validateCriteria_rejects_trimmed [of "Some ''process.exit()''"] by simp
qed

text \<open>
  Claim C7 as stated fails on the raw text. The word \<open>true\<close> followed by 1997 spaces
  has 2001 characters and is accepted, because the length that is checked is the one of
  the trimmed text; and \<open>body.import\<close> followed by a space matches the second pattern
  of the denylist, \<open>import\s+\<close>, and is accepted, because the patterns are tested on
  the trimmed text.
\<close>

theorem validateCriteria_raw_text_counterexample:
  "length (''true'' @ replicate 1997 (CHR '' '')) > 2000
   \<and> validateCriteria new_Function_sample (Some (''true'' @ replicate 1997 (CHR '' ''))) = Valid
   \<and> regex_test (DANGEROUS_PATTERNS ! 1) ''body.import ''
   \<and> validateCriteria new_Function_sample (Some ''body.import '') = Valid"
proof -
  have t: "trim (''true'' @ replicate 1997 (CHR '' '')) = ''true''"
    using trim_append_ws [of "replicate 1997 (CHR '' '')" "''true''"] trim_true
    by (simp add: is_ws_def)
  have "validateCriteria new_Function_sample (Some (''true'' @ replicate 1997 (CHR '' ''))) = Valid"
    by (rule validate_by_trim [OF _ t _ _ no_danger_true]) (simp_all add: new_Function_sample_def)
  moreover have "regex_test (DANGEROUS_PATTERNS ! 1) ''body.import ''" by code_simp
  moreover have "validateCriteria new_Function_sample (Some ''body.import '') = Valid" by code_simp
  ultimately show ?thesis by simp
qed

text \<open>
  When \<open>evaluateCriteria\<close> lets an exception escape: exactly when the expression is
  valid, the sandboxed run throws, and the catch block cannot read and print the
  message of what was thrown. What escapes is then the exception of the catch block: a
  TypeError for a thrown \<open>null\<close> or \<open>undefined\<close> and for a message without a string
  form, or the value that reading the message throws. In every other case it returns,
  and a result without success has \<open>result = false\<close> and an error.
\<close>

lemma read_message_no_RangeError: "read_message v \<noteq> Escapes_RangeError"
  by (cases v rule: read_message.cases) simp_all

lemma evaluateCriteria_escapes_iff:
  "(\<forall>r. evaluateCriteria nf run expression ctx \<noteq> Returns r) \<longleftrightarrow>
     (\<exists>e v. expression = Some e \<and> validateCriteria nf expression = Valid
          \<and> run e ctx = Aborts v \<and> (\<forall>m. read_message v \<noteq> Returns m))"
  by (auto simp: evaluateCriteria_def validateCriteria_def
           split: validation.splits option.splits vm_outcome.splits outcome.splits)

lemma evaluateCriteria_escape_is_of_handler:
  "evaluateCriteria nf run expression ctx = Escapes_TypeError \<longleftrightarrow>
     (\<exists>e v. expression = Some e \<and> validateCriteria nf expression = Valid
          \<and> run e ctx = Aborts v \<and> read_message v = Escapes_TypeError)"
  "evaluateCriteria nf run expression ctx = Escapes_Thrown w \<longleftrightarrow>
     (\<exists>e v. expression = Some e \<and> validateCriteria nf expression = Valid
          \<and> run e ctx = Aborts v \<and> read_message v = Escapes_Thrown w)"
  "evaluateCriteria nf run expression ctx \<noteq> Escapes_RangeError"
  by (auto simp: evaluateCriteria_def validateCriteria_def read_message_no_RangeError
           split: validation.splits option.splits vm_outcome.splits outcome.splits)

lemma evaluateCriteria_failure_shape:
  assumes "evaluateCriteria nf run expression ctx = Returns r" and "\<not> success r"
  shows "\<not> result r \<and> error r \<noteq> None"
  using assms
  by (auto simp: evaluateCriteria_def
           split: validation.splits option.splits vm_outcome.splits outcome.splits)

text \<open>
  Claim C2 at its failing input. The expression \<open>(() => { throw null })()\<close> passes
  \<open>validateCriteria\<close>; the sandboxed run throws \<open>null\<close>; the catch block of
  \<open>evaluateCriteria\<close> reads \<open>error.message\<close> of \<open>null\<close>, and the TypeError of that
  read escapes to the caller instead of a result with \<open>success = false\<close>.
\<close>

theorem evaluateCriteria_throw_null_escapes:
  "validateCriteria new_Function_sample (Some ''(() => { throw null })()'') = Valid
   \<and> evaluateCriteria new_Function_sample run_sample (Some ''(() => { throw null })()'') ()
       = Escapes_TypeError"
  by code_simp

section \<open>Properties of the rule matcher\<close>

lemma sort_key_head_least:
  assumes "sort_key k xs = y # ys" and "x \<in> set xs"
  shows "k y \<le> k x"
proof -
  have "sorted (map k (sort_key k xs))" by (rule sorted_sort_key)
  with assms(1) have "\<forall>z\<in>set ys. k y \<le> k z" by simp
  moreover have "set (y # ys) = set xs" using assms(1) set_sort [of k xs] by simp
  ultimately show ?thesis using assms(2) by auto
qed

lemma sort_key_head_mem:
  assumes "sort_key k xs = y # ys"
  shows "y \<in> set xs"
  using assms set_sort [of k xs] by auto

lemma exact_query_Some:
  assumes "exact_query rutas p t = Some r"
  shows "r \<in> set rutas \<and> exact_where p t r
         \<and> (\<forall>c\<in>set rutas. exact_where p t c \<longrightarrow> exact_key t r \<le> exact_key t c)"
proof -
  from assms obtain ys where s: "sort_key (exact_key t) (filter (exact_where p t) rutas) = r # ys"
    by (auto simp: exact_query_def split: list.splits)
  from sort_key_head_mem [OF s] have "r \<in> set rutas \<and> exact_where p t r" by simp
  moreover have "\<forall>c\<in>set rutas. exact_where p t c \<longrightarrow> exact_key t r \<le> exact_key t c"
    using sort_key_head_least [OF s] by simp
  ultimately show ?thesis by blast
qed

lemma sort_key_Nil_iff: "sort_key k xs = [] \<longleftrightarrow> xs = []"
  using length_sort [of k xs] by (metis length_0_conv)

lemma exact_query_None:
  "exact_query rutas p t = None \<longleftrightarrow> (\<forall>c\<in>set rutas. \<not> exact_where p t c)"
proof -
  have "exact_query rutas p t = None
          \<longleftrightarrow> sort_key (exact_key t) (filter (exact_where p t) rutas) = []"
    by (simp add: exact_query_def split: list.splits)
  then show ?thesis by (simp add: sort_key_Nil_iff filter_empty_conv)
qed

lemma regex_loop_Some:
  "regex_loop re url rs = Some r \<Longrightarrow> r \<in> set rs \<and> re (ruta r) url = Some True"
  by (induction rs) (auto split: option.splits bool.splits)

lemma regex_loop_None:
  "regex_loop re url rs = None \<longleftrightarrow> (\<forall>r\<in>set rs. re (ruta r) url \<noteq> Some True)"
  by (induction rs) (auto split: option.splits bool.splits)

lemma regex_loop_first:
  assumes "regex_loop re url rs = Some r" and "sorted (map k rs)"
    and "c \<in> set rs" and "re (ruta c) url = Some True"
  shows "k r \<le> k c"
  using assms by (induction rs) (auto split: option.splits bool.splits)

text \<open>
  Claim C1. When the rule set has an active non-regex rule whose path is the
  query-stripped request path and whose method is the request method or \<open>any\<close>,
  \<open>getRuta\<close> returns such a literal rule, whatever regex rules match and whatever
  the priority numbers are. The rule returned has the request method whenever some
  matching literal rule has it, and among the matching literal rules of its kind of
  method (exact, or \<open>any\<close>) it has the lowest priority number, a missing number
  counting as 999999.
\<close>

theorem literal_rule_wins:
  assumes "literal \<in> set rutas"
    and "ruta literal = strip_query url"
    and "isRegex literal = None \<or> isRegex literal = Some 0"
    and "row_active literal"
    and "tipo_matches t literal"
  shows "\<exists>r. getRuta re rutas url t = Some r \<and> r \<in> set rutas
           \<and> exact_where (strip_query url) t r
           \<and> (\<forall>c\<in>set rutas. exact_where (strip_query url) t c \<longrightarrow>
                 (tipo c = t \<longrightarrow> tipo r = t)
                 \<and> ((tipo c = t \<longleftrightarrow> tipo r = t) \<longrightarrow> coalesce_orden r \<le> coalesce_orden c))"
proof -
  from assms have cand: "exact_where (strip_query url) t literal"
    by (simp add: exact_where_def)
  with assms(1) have "exact_query rutas (strip_query url) t \<noteq> None"
    by (auto simp: exact_query_None)
  then obtain r where q: "exact_query rutas (strip_query url) t = Some r" by blast
  note e = exact_query_Some [OF q]
  have g: "getRuta re rutas url t = Some r" by (simp add: getRuta_def q)
  have "(tipo c = t \<longrightarrow> tipo r = t)
        \<and> ((tipo c = t \<longleftrightarrow> tipo r = t) \<longrightarrow> coalesce_orden r \<le> coalesce_orden c)"
    if "c \<in> set rutas" "exact_where (strip_query url) t c" for c
  proof -
    from e that have "exact_key t r \<le> exact_key t c" by blast
    then show ?thesis by (auto simp: exact_key_def less_eq_prod_def split: if_splits)
  qed
  with g e show ?thesis by blast
qed




theorem literal_rule_wins_witness:
  "regex_where ''get'' (mk_ruta 1 ''any'' ''/a.*'' (Some 1) (Some 1))
   \<and> js_regex_lite ''/a.*'' ''/api?x=1'' = Some True
   \<and> getRuta js_regex_lite rutas_sample ''/api?x=1'' ''get'' = Some (mk_ruta 3 ''get'' ''/api'' None (Some 9))
   \<and> (\<exists>r. getRuta js_regex_lite rutas_sample ''/api?x=1'' ''get'' = Some r \<and> r \<in> set rutas_sample
           \<and> exact_where (strip_query ''/api?x=1'') ''get'' r
           \<and> (\<forall>c\<in>set rutas_sample. exact_where (strip_query ''/api?x=1'') ''get'' c \<longrightarrow>
                 (tipo c = ''get'' \<longrightarrow> tipo r = ''get'')
                 \<and> ((tipo c = ''get'' \<longleftrightarrow> tipo r = ''get'') \<longrightarrow> coalesce_orden r \<le> coalesce_orden c)))"
proof -
  have 1: "mk_ruta 2 ''any'' ''/api'' (Some 0) (Some 7) \<in> set rutas_sample"
    by (simp add: rutas_sample_def)
  have 2: "ruta (mk_ruta 2 ''any'' ''/api'' (Some 0) (Some 7)) = strip_query ''/api?x=1''"
    by (simp add: mk_ruta_def strip_query_def)
  have 3: "isRegex (mk_ruta 2 ''any'' ''/api'' (Some 0) (Some 7)) = None
           \<or> isRegex (mk_ruta 2 ''any'' ''/api'' (Some 0) (Some 7)) = Some 0"
    by (simp add: mk_ruta_def)
  have 4: "row_active (mk_ruta 2 ''any'' ''/api'' (Some 0) (Some 7))"
    by (simp add: mk_ruta_def row_active_def)
  have 5: "tipo_matches ''get'' (mk_ruta 2 ''any'' ''/api'' (Some 0) (Some 7))"
    by (simp add: mk_ruta_def tipo_matches_def)
  have a: "regex_where ''get'' (mk_ruta 1 ''any'' ''/a.*'' (Some 1) (Some 1))"
    by (simp add: regex_where_def mk_ruta_def tipo_matches_def row_active_def)
  have b: "js_regex_lite ''/a.*'' ''/api?x=1'' = Some True" by code_simp
  have c: "getRuta js_regex_lite rutas_sample ''/api?x=1'' ''get''
             = Some (mk_ruta 3 ''get'' ''/api'' None (Some 9))"
    by code_simp
  from a b c literal_rule_wins [OF 1 2 3 4 5, of js_regex_lite] show ?thesis by blast
qed

lemma regex_query_set: "set (regex_query rutas t) = {c \<in> set rutas. regex_where t c}"
  by (auto simp: regex_query_def)

lemma regex_query_sorted: "sorted (map coalesce_orden (regex_query rutas t))"
  by (simp add: regex_query_def)

lemma strip_query_prefix:
  "CHR ''?'' \<notin> set (strip_query url)
   \<and> (\<exists>rest. url = strip_query url @ rest \<and> (rest = [] \<or> hd rest = CHR ''?''))"
proof -
  have "url = strip_query url @ dropWhile (\<lambda>c. c \<noteq> CHR ''?'') url"
    by (simp add: strip_query_def)
  moreover have "dropWhile (\<lambda>c. c \<noteq> CHR ''?'') url = []
                 \<or> hd (dropWhile (\<lambda>c. c \<noteq> CHR ''?'') url) = CHR ''?''"
    using hd_dropWhile [of "\<lambda>c. c \<noteq> CHR ''?''" url] by blast
  moreover have "CHR ''?'' \<notin> set (strip_query url)"
    by (auto simp: strip_query_def dest: set_takeWhileD)
  ultimately show ?thesis by blast
qed

text \<open>
  Claim C8. The path that literal rules are compared with is the text of the URL before
  its first question mark. A rule returned by \<open>getRuta\<close> is either a literal rule
  whose path equals that stripped path, or, when no literal rule does, a regex rule
  whose pattern the engine matched against the raw URL, the first such rule in priority
  order. Nothing is returned exactly when no literal rule equals the stripped path and
  no regex rule matches the raw URL.
\<close>

theorem literal_stripped_regex_raw:
  "(CHR ''?'' \<notin> set (strip_query url)
      \<and> (\<exists>rest. url = strip_query url @ rest \<and> (rest = [] \<or> hd rest = CHR ''?'')))
   \<and> (\<forall>r. getRuta re rutas url t = Some r \<longrightarrow>
         r \<in> set rutas
         \<and> ((exact_where (strip_query url) t r \<and> ruta r = strip_query url)
            \<or> (regex_where t r \<and> re (ruta r) url = Some True
                \<and> (\<forall>c\<in>set rutas. \<not> exact_where (strip_query url) t c)
                \<and> (\<forall>c\<in>set rutas. regex_where t c \<and> re (ruta c) url = Some True
                       \<longrightarrow> coalesce_orden r \<le> coalesce_orden c))))
   \<and> (getRuta re rutas url t = None \<longleftrightarrow>
         (\<forall>c\<in>set rutas. \<not> exact_where (strip_query url) t c)
         \<and> (\<forall>c\<in>set rutas. regex_where t c \<longrightarrow> re (ruta c) url \<noteq> Some True))"
proof (intro conjI allI impI)
  show "CHR ''?'' \<notin> set (strip_query url)" using strip_query_prefix by blast
  show "\<exists>rest. url = strip_query url @ rest \<and> (rest = [] \<or> hd rest = CHR ''?'')"
    using strip_query_prefix by blast
next
  fix r assume g: "getRuta re rutas url t = Some r"
  show "r \<in> set rutas"
  proof (cases "exact_query rutas (strip_query url) t")
    case None
    with g have "regex_loop re url (regex_query rutas t) = Some r" by (simp add: getRuta_def)
    then show ?thesis using regex_loop_Some regex_query_set by fastforce
  next
    case (Some r')
    with g have "r' = r" by (simp add: getRuta_def)
    with Some show ?thesis using exact_query_Some by blast
  qed
  show "(exact_where (strip_query url) t r \<and> ruta r = strip_query url)
        \<or> (regex_where t r \<and> re (ruta r) url = Some True
            \<and> (\<forall>c\<in>set rutas. \<not> exact_where (strip_query url) t c)
            \<and> (\<forall>c\<in>set rutas. regex_where t c \<and> re (ruta c) url = Some True
                   \<longrightarrow> coalesce_orden r \<le> coalesce_orden c))"
  proof (cases "exact_query rutas (strip_query url) t")
    case None
    with g have l: "regex_loop re url (regex_query rutas t) = Some r" by (simp add: getRuta_def)
    from regex_loop_Some [OF l] have "regex_where t r" "re (ruta r) url = Some True"
      by (simp_all add: regex_query_set)
    moreover from None have "\<forall>c\<in>set rutas. \<not> exact_where (strip_query url) t c"
      by (simp add: exact_query_None)
    moreover have "coalesce_orden r \<le> coalesce_orden c"
      if "c \<in> set rutas" "regex_where t c \<and> re (ruta c) url = Some True" for c
      using regex_loop_first [OF l regex_query_sorted, of c] that by (simp add: regex_query_set)
    ultimately show ?thesis by blast
  next
    case (Some r')
    with g have "r' = r" by (simp add: getRuta_def)
    with Some have "exact_where (strip_query url) t r" using exact_query_Some by blast
    then show ?thesis by (simp add: exact_where_def)
  qed
next
  show "getRuta re rutas url t = None \<longleftrightarrow>
         (\<forall>c\<in>set rutas. \<not> exact_where (strip_query url) t c)
         \<and> (\<forall>c\<in>set rutas. regex_where t c \<longrightarrow> re (ruta c) url \<noteq> Some True)"
  proof (cases "exact_query rutas (strip_query url) t")
    case None
    then have "getRuta re rutas url t = regex_loop re url (regex_query rutas t)"
      by (simp add: getRuta_def)
    with None show ?thesis
      by (auto simp: regex_loop_None regex_query_set exact_query_None)
  next
    case (Some r')
    then have "getRuta re rutas url t \<noteq> None" by (simp add: getRuta_def)
    moreover from Some have "\<not> (\<forall>c\<in>set rutas. \<not> exact_where (strip_query url) t c)"
      using exact_query_None [of rutas "strip_query url" t] by simp
    ultimately show ?thesis by blast
  qed
qed

theorem literal_stripped_regex_raw_witness:
  "getRuta js_regex_lite rutas_query_sample ''/a?q=1'' ''get'' = Some (mk_ruta 2 ''get'' ''q=1$'' (Some 1) (Some 2))
   \<and> strip_query ''/a?q=1'' = ''/a''
   \<and> js_regex_lite ''q=1$'' ''/a'' = Some False
   \<and> js_regex_lite (ruta (mk_ruta 2 ''get'' ''q=1$'' (Some 1) (Some 2))) ''/a?q=1'' = Some True
   \<and> list_all (\<lambda>c. \<not> exact_where (strip_query ''/a?q=1'') ''get'' c) rutas_query_sample"
proof -
  have g: "getRuta js_regex_lite rutas_query_sample ''/a?q=1'' ''get''
             = Some (mk_ruta 2 ''get'' ''q=1$'' (Some 1) (Some 2))"
    by code_simp
  have s: "strip_query ''/a?q=1'' = ''/a''" by code_simp
  have f: "js_regex_lite ''q=1$'' ''/a'' = Some False" by code_simp
  have n: "\<not> exact_where (strip_query ''/a?q=1'') ''get'' (mk_ruta 2 ''get'' ''q=1$'' (Some 1) (Some 2))"
    by (simp add: exact_where_def mk_ruta_def)
  from literal_stripped_regex_raw [of "''/a?q=1''" js_regex_lite rutas_query_sample "''get''"] g n
  have "js_regex_lite (ruta (mk_ruta 2 ''get'' ''q=1$'' (Some 1) (Some 2))) ''/a?q=1'' = Some True
        \<and> (\<forall>c\<in>set rutas_query_sample. \<not> exact_where (strip_query ''/a?q=1'') ''get'' c)"
    by blast
  with g s f show ?thesis by (simp add: list_all_iff)
qed

section \<open>Properties of the fallback selection\<close>

lemma find_sorted_least:
  assumes "sorted (map k xs)" and "find P xs = Some f" and "g \<in> set xs" and "P g"
  shows "k f \<le> k g"
  using assms by (induction xs) (auto split: if_splits)

lemma findMatchingFallback_find:
  assumes "\<forall>f\<in>set fbs. is_type_set (error_types f)"
  shows "findMatchingFallback re fbs subPath errorType
           = Returns (find (fallback_applies re subPath errorType) fbs)"
  using assms
proof (induction fbs)
  case Nil
  then show ?case by simp
next
  case (Cons f fbs)
  then have t: "is_type_set (error_types f)" by simp
  from Cons have IH: "findMatchingFallback re fbs subPath errorType
                        = Returns (find (fallback_applies re subPath errorType) fbs)"
    by simp
  show ?case
  proof (cases "fallback_applies re subPath errorType f")
    case True
    with t have "error_type_applies (error_types f) errorType = Some True"
      and "re (path_pattern f) subPath = Some True"
      by (cases "error_types f"; simp add: fallback_applies_def type_set_def is_type_set_def)+
    with True show ?thesis by simp
  next
    case False
    with t have "error_type_applies (error_types f) errorType = Some False
        \<or> (error_type_applies (error_types f) errorType = Some True
            \<and> re (path_pattern f) subPath \<noteq> Some True)"
      by (cases "error_types f"; auto simp: fallback_applies_def type_set_def is_type_set_def)
    with False IH show ?thesis by (auto split: option.splits bool.splits)
  qed
qed

lemma loadFallbacks_set:
  "set (loadFallbacks table ctable rid)
     = (\<lambda>f. f\<lparr>conditions := getConditionalResponses ctable (f_id f)\<rparr>)
         ` {f \<in> set table. f_route f = rid \<and> f_activo f = Some 1}"
  by (auto simp: loadFallbacks_def getProxyFallbacks_def)

lemma loadFallbacks_sorted: "sorted (map f_orden (loadFallbacks table ctable rid))"
proof -
  have "sorted (map f_orden (filter (\<lambda>f. f_activo f = Some 1) (getProxyFallbacks table rid)))"
    unfolding getProxyFallbacks_def by (intro sorted_filter sorted_sort_key)
  moreover have "map f_orden (loadFallbacks table ctable rid)
      = map f_orden (filter (\<lambda>f. f_activo f = Some 1) (getProxyFallbacks table rid))"
    by (simp add: loadFallbacks_def comp_def)
  ultimately show ?thesis by simp
qed

text \<open>
  When the error types of every fallback that \<open>loadProxyConfigs\<close> loaded for the
  rule parse to an array, or do not parse, \<open>findMatchingFallback\<close> returns the first
  of the loaded fallbacks to which the classified error type (or \<open>all\<close>) and the
  path apply. The loaded fallbacks are the rows of the rule with \<open>activo = 1\<close>, and
  the one returned has the least order index among those that apply. With the two
  fallbacks of the example and a timeout, \<open>/users/5\<close> selects the first and
  \<open>/orders/5\<close> the second.
\<close>

lemma loaded_fallbacks_first_applicable:
  assumes "\<forall>f\<in>set (loadFallbacks table ctable rid). is_type_set (error_types f)"
  shows "findMatchingFallback re (loadFallbacks table ctable rid) subPath errorType
           = Returns (find (fallback_applies re subPath errorType) (loadFallbacks table ctable rid))
         \<and> (\<forall>f. find (fallback_applies re subPath errorType) (loadFallbacks table ctable rid) = Some f
               \<longrightarrow> f_route f = rid \<and> f_activo f = Some 1 \<and> fallback_applies re subPath errorType f
                   \<and> (\<forall>g\<in>set table. f_route g = rid \<and> f_activo g = Some 1
                          \<and> fallback_applies re subPath errorType g \<longrightarrow> f_orden f \<le> f_orden g))
         \<and> (find (fallback_applies re subPath errorType) (loadFallbacks table ctable rid) = None
               \<longleftrightarrow> (\<forall>g\<in>set table. f_route g = rid \<and> f_activo g = Some 1
                          \<longrightarrow> \<not> fallback_applies re subPath errorType g))
         \<and> findMatchingFallback js_regex_lite (loadFallbacks fallbacks_sample [] 1) ''/users/5'' ''timeout''
             = Returns (Some (mk_fallback 1 (Some 0) [''timeout''] ''^/users/.*''))
         \<and> findMatchingFallback js_regex_lite (loadFallbacks fallbacks_sample [] 1) ''/orders/5'' ''timeout''
             = Returns (Some (mk_fallback 2 (Some 1) [''all''] ''.*''))"
proof -
  let ?L = "loadFallbacks table ctable rid"
  let ?P = "fallback_applies re subPath errorType"
  let ?c = "\<lambda>f. f\<lparr>conditions := getConditionalResponses ctable (f_id f)\<rparr>"
  have P_c: "?P (?c g) = ?P g" for g by (simp add: fallback_applies_def)
  have 1: "findMatchingFallback re ?L subPath errorType = Returns (find ?P ?L)"
    using assms by (rule findMatchingFallback_find)
  have 2: "f_route f = rid \<and> f_activo f = Some 1 \<and> ?P f
           \<and> (\<forall>g\<in>set table. f_route g = rid \<and> f_activo g = Some 1 \<and> ?P g \<longrightarrow> f_orden f \<le> f_orden g)"
    if f: "find ?P ?L = Some f" for f
  proof -
    from f have "f \<in> set ?L" and "?P f" by (auto simp: find_Some_iff)
    then have "f_route f = rid \<and> f_activo f = Some 1 \<and> ?P f"
      by (auto simp: loadFallbacks_set)
    moreover have "f_orden f \<le> f_orden g"
      if "g \<in> set table" "f_route g = rid \<and> f_activo g = Some 1 \<and> ?P g" for g
    proof -
      from that have "?c g \<in> set ?L" by (auto simp: loadFallbacks_set)
      moreover from that have "?P (?c g)" by (simp add: P_c)
      ultimately have "f_orden f \<le> f_orden (?c g)"
        using find_sorted_least [OF loadFallbacks_sorted f] by blast
      then show ?thesis by simp
    qed
    ultimately show ?thesis by blast
  qed
  have 3: "find ?P ?L = None
             \<longleftrightarrow> (\<forall>g\<in>set table. f_route g = rid \<and> f_activo g = Some 1 \<longrightarrow> \<not> ?P g)"
    by (auto simp: find_None_iff loadFallbacks_set P_c)
  have 4: "findMatchingFallback js_regex_lite (loadFallbacks fallbacks_sample [] 1) ''/users/5'' ''timeout''
             = Returns (Some (mk_fallback 1 (Some 0) [''timeout''] ''^/users/.*''))"
    by code_simp
  have 5: "findMatchingFallback js_regex_lite (loadFallbacks fallbacks_sample [] 1) ''/orders/5'' ''timeout''
             = Returns (Some (mk_fallback 2 (Some 1) [''all''] ''.*''))"
    by code_simp
  from 1 2 3 4 5 show ?thesis by blast
qed

text \<open>
  Claim C4 at its failing input. The rule has two active fallbacks whose pattern
  matches every path. The error types of the first were saved as an object, so the
  stored text parses, to a value that is not an array; those of the second are
  \<open>["all"]\<close>. For a timeout on \<open>/orders/5\<close> the second is the first fallback whose
  set of error types contains the error type or \<open>all\<close>. The try block of
  \<open>findMatchingFallback\<close> replaces only a text that does not parse by the empty
  array: on the first fallback \<open>errorTypes.includes\<close> is not a function, and its
  TypeError escapes \<open>findMatchingFallback\<close> before the second is looked at.
\<close>

theorem object_error_types_escape:
  "loadFallbacks fallbacks_object_sample [] 1 = fallbacks_object_sample
   \<and> find (fallback_applies js_regex_lite ''/orders/5'' ''timeout'')
         (loadFallbacks fallbacks_object_sample [] 1)
       = Some (mk_fallback 2 (Some 1) [''all''] ''.*'')
   \<and> findMatchingFallback js_regex_lite (loadFallbacks fallbacks_object_sample [] 1)
         ''/orders/5'' ''timeout''
       = Escapes_TypeError"
  by code_simp

text \<open>
  The same missed case with a JSON string: \<open>includes\<close> is then the search for a
  substring, and a fallback without a set of error types is selected.
\<close>

lemma string_error_types_substring:
  "findMatchingFallback js_regex_lite (loadFallbacks fallbacks_string_sample [] 1)
       ''/orders/5'' ''timeout''
     = Returns (Some ((mk_fallback 1 (Some 0) [] ''.*'')\<lparr>error_types := JSONString ''timeouts''\<rparr>))
   \<and> find (fallback_applies js_regex_lite ''/orders/5'' ''timeout'')
         (loadFallbacks fallbacks_string_sample [] 1) = None"
  by code_simp

section \<open>Properties of the active-wait registry\<close>

lemma find_append_last:
  assumes "\<forall>x\<in>set xs. \<not> P x" and "P y"
  shows "find P (xs @ [y]) = Some y"
  using assms by (induction xs) auto

lemma wakeUp_absent:
  assumes "\<forall>e\<in>set (waitList s). id_of s e \<noteq> Some i"
  shows "wakeUp i custom s = (False, s)"
proof -
  from assms have "findInList s i = None" by (auto simp: findInList_def find_None_iff)
  then show ?thesis by (simp add: wakeUp_def)
qed

lemma wakeUp_lists:
  "waitList (snd (wakeUp i custom s)) = waitList s
   \<and> parked (snd (wakeUp i custom s)) = parked s
   \<and> returned (snd (wakeUp i custom s)) = returned s"
  by (simp add: wakeUp_def split: option.splits)

lemma wakeUp_id_of: "id_of (snd (wakeUp i custom s)) e = id_of s e"
  by (auto simp: wakeUp_def id_of_def split: option.splits)

text \<open>
  Claim C6, as amended. A release with an id that no element of the wait list has
  returns false and leaves the registry as it is. When an element whose flag is set, a
  new object with an id that no element of the list has, is parked, the call is suspended and the
  element is in the list; one release with its id returns true, stores the override
  (if one is given) and clears the flag on that element, and by itself changes neither
  the list nor the suspended calls; at its next wake-up the call leaves, once, and
  takes its element off the list; after that nothing is left to wake up for the
  element, and a further release with the id returns false and changes nothing.
\<close>

theorem park_release_once:
  fixes s :: "'r registry" and custom custom' :: "'r option"
  assumes fresh: "\<forall>e\<in>set (waitList s). id_of s e \<noteq> Some (item_id element)"
    and asleep: "sleep element"
    and new: "r \<notin> set (waitList s)" "r \<notin> set (parked s)"
  shows "(\<forall>i c. (\<forall>e\<in>set (waitList s). id_of s e \<noteq> Some i) \<longrightarrow> wakeUp i c s = (False, s))
    \<and> (let s1 = park r element s;
            s2 = snd (wakeUp (item_id element) custom s1);
            s3 = poll r s2
        in r \<in> set (parked s1) \<and> r \<in> set (waitList s1) \<and> returned s1 = returned s
           \<and> fst (wakeUp (item_id element) custom s1) = True
           \<and> objects s2 r = Some (element\<lparr>customResponse :=
                                   (case custom of None \<Rightarrow> customResponse element | Some c \<Rightarrow> Some c),
                                  sleep := False\<rparr>)
           \<and> waitList s2 = waitList s1 \<and> parked s2 = parked s1 \<and> returned s2 = returned s1
           \<and> returned s3 = returned s @ [r] \<and> r \<notin> set (parked s3) \<and> r \<notin> set (waitList s3)
           \<and> waitList s3 = waitList s
           \<and> poll r s3 = s3
           \<and> wakeUp (item_id element) custom' s3 = (False, s3))"
proof -
  define s0 where "s0 = s\<lparr>objects := (objects s)(r \<mapsto> element)\<rparr>"
  define s1 where "s1 = park r element s"
  define s2 where "s2 = snd (wakeUp (item_id element) custom s1)"
  define s3 where "s3 = poll r s2"
  define element' where "element' = element\<lparr>customResponse :=
      (case custom of None \<Rightarrow> customResponse element | Some c \<Rightarrow> Some c), sleep := False\<rparr>"
  have s1: "s1 = s\<lparr>objects := (objects s)(r \<mapsto> element), waitList := waitList s @ [r],
                   parked := parked s @ [r]\<rparr>"
    using asleep by (simp add: s1_def park_def addToListAndWait_def)
  have ids1: "id_of s1 e = (if e = r then Some (item_id element) else id_of s e)" for e
    by (simp add: s1 id_of_def)
  have others: "\<forall>e\<in>set (waitList s). id_of s1 e \<noteq> Some (item_id element)"
    using fresh new(1) by (auto simp: ids1)
  have "find (\<lambda>e. id_of s1 e = Some (item_id element)) (waitList s @ [r]) = Some r"
    using others by (intro find_append_last) (simp_all add: ids1)
  then have f: "findInList s1 (item_id element) = Some r" by (simp add: findInList_def s1)
  have w: "wakeUp (item_id element) custom s1 = (True, s1\<lparr>objects := (objects s1)(r \<mapsto> element')\<rparr>)"
    by (simp add: wakeUp_def f element'_def) (simp add: s1)
  then have s2: "s2 = s1\<lparr>objects := (objects s1)(r \<mapsto> element')\<rparr>" by (simp add: s2_def)
  have ids2: "id_of s2 e = id_of s1 e" for e
    by (simp add: s2 id_of_def ids1 element'_def) (simp add: s1)
  have flt: "filter (\<lambda>e. id_of s1 e \<noteq> Some (item_id element)) (waitList s @ [r]) = waitList s"
    using others by (simp add: ids1 filter_id_conv)
  have s3: "s3 = s2\<lparr>parked := parked s, waitList := waitList s, returned := returned s @ [r]\<rparr>"
  proof -
    have "remove1 r (parked s @ [r]) = parked s"
      using new(2) by (simp add: remove1_append)
    moreover have "filter (\<lambda>e. id_of (s2\<lparr>parked := parked s\<rparr>) e \<noteq> id_of (s2\<lparr>parked := parked s\<rparr>) r)
                     (waitList s @ [r]) = waitList s"
    proof -
      have "id_of (s2\<lparr>parked := parked s\<rparr>) e = id_of s1 e" for e
        using ids2 [of e] by (simp add: id_of_def)
      then show ?thesis using flt by (simp add: ids1)
    qed
    ultimately show ?thesis
      by (simp add: s3_def poll_def leave_def s2 element'_def) (simp add: s1)
  qed
  have p3: "poll r s3 = s3" using new(2) by (simp add: poll_def s3)
  have "\<forall>e\<in>set (waitList s3). id_of s3 e \<noteq> Some (item_id element)"
  proof
    fix e assume "e \<in> set (waitList s3)"
    then have e: "e \<in> set (waitList s)" by (simp add: s3)
    have "id_of s3 e = id_of s1 e" using ids2 [of e] by (simp add: id_of_def s3)
    with others e show "id_of s3 e \<noteq> Some (item_id element)" by simp
  qed
  then have w3: "wakeUp (item_id element) custom' s3 = (False, s3)" by (rule wakeUp_absent)
  have A: "\<forall>i c. (\<forall>e\<in>set (waitList s). id_of s e \<noteq> Some i) \<longrightarrow> wakeUp i c s = (False, s)"
    using wakeUp_absent by blast
  have B: "r \<in> set (parked s1) \<and> r \<in> set (waitList s1) \<and> returned s1 = returned s
           \<and> fst (wakeUp (item_id element) custom s1) = True
           \<and> objects s2 r = Some element'
           \<and> waitList s2 = waitList s1 \<and> parked s2 = parked s1 \<and> returned s2 = returned s1
           \<and> returned s3 = returned s @ [r] \<and> r \<notin> set (parked s3) \<and> r \<notin> set (waitList s3)
           \<and> waitList s3 = waitList s
           \<and> poll r s3 = s3
           \<and> wakeUp (item_id element) custom' s3 = (False, s3)"
    using new p3 w3 by (simp add: w) (simp add: s1 s2 s3)
  from A B show ?thesis
    unfolding Let_def s1_def [symmetric] s2_def [symmetric] s3_def [symmetric] element'_def [symmetric]
    by blast
qed


theorem park_release_once_witness:
  "list_all (\<lambda>e. id_of other_parked e \<noteq> Some (item_id element_sample)) (waitList other_parked)
   \<and> waitList other_parked = [0]
   \<and> sleep element_sample
   \<and> waitList (park 1 element_sample other_parked) = [0, 1]
   \<and> fst (wakeUp ''abc'' (Some 404) (park 1 element_sample other_parked)) = True
   \<and> objects (snd (wakeUp ''abc'' (Some 404) (park 1 element_sample other_parked))) 1
       = Some \<lparr>item_id = ''abc'', sleep = False, customResponse = Some 404\<rparr>
   \<and> returned (poll 1 (snd (wakeUp ''abc'' (Some 404) (park 1 element_sample other_parked)))) = [1]
   \<and> waitList (poll 1 (snd (wakeUp ''abc'' (Some 404) (park 1 element_sample other_parked)))) = [0]
   \<and> wakeUp ''abc'' None (poll 1 (snd (wakeUp ''abc'' (Some 404) (park 1 element_sample other_parked))))
       = (False, poll 1 (snd (wakeUp ''abc'' (Some 404) (park 1 element_sample other_parked))))"
proof -
  have w: "waitList other_parked = [0]" "parked other_parked = [0]" "returned other_parked = []"
    by (simp_all add: other_parked_def park_def addToListAndWait_def registry_init_def)
  have i: "id_of other_parked 0 = Some ''other''"
    by (simp add: other_parked_def park_def addToListAndWait_def registry_init_def id_of_def)
  have f: "\<forall>e\<in>set (waitList other_parked). id_of other_parked e \<noteq> Some (item_id element_sample)"
    by (simp add: w i element_sample_def)
  have a: "sleep element_sample" by (simp add: element_sample_def)
  have l: "waitList (park 1 element_sample other_parked) = [0, 1]"
    by (simp add: park_def addToListAndWait_def a w)
  from park_release_once [OF f a, of 1 "Some 404" None]
  have "fst (wakeUp ''abc'' (Some 404) (park 1 element_sample other_parked)) = True
   \<and> objects (snd (wakeUp ''abc'' (Some 404) (park 1 element_sample other_parked))) 1
       = Some \<lparr>item_id = ''abc'', sleep = False, customResponse = Some 404\<rparr>
   \<and> returned (poll 1 (snd (wakeUp ''abc'' (Some 404) (park 1 element_sample other_parked)))) = [1]
   \<and> waitList (poll 1 (snd (wakeUp ''abc'' (Some 404) (park 1 element_sample other_parked)))) = [0]
   \<and> wakeUp ''abc'' None (poll 1 (snd (wakeUp ''abc'' (Some 404) (park 1 element_sample other_parked))))
       = (False, poll 1 (snd (wakeUp ''abc'' (Some 404) (park 1 element_sample other_parked))))"
    by (simp add: Let_def w) (simp add: element_sample_def)
  with w f a l show ?thesis by (simp add: list_all_iff)
qed

text \<open>
  Claim C6 as stated fails when the parked element shares its id with an element of
  the list, and when its flag is not set. With a first element of the id \<open>abc\<close> in
  the list, a second one with that id is parked and one release with the id is made:
  it returns true, but it finds the first element, so the second keeps its flag and
  gets no override, and at its wake-up its call stays suspended. An element parked
  with a flag other than \<open>true\<close> is not suspended at all: its call returns at once
  and takes it off the list, and the release returns false.
\<close>

theorem shared_id_release_counterexample:
  "waitList shared_id_parked = [0, 1]
   \<and> parked shared_id_parked = [0, 1]
   \<and> fst (wakeUp ''abc'' (Some 404) shared_id_parked) = True
   \<and> objects shared_id_released 1 = Some \<lparr>item_id = ''abc'', sleep = True, customResponse = None\<rparr>
   \<and> parked (poll 1 shared_id_released) = [0, 1]
   \<and> returned (poll 1 shared_id_released) = []
   \<and> returned (park 0 element_awake registry_init) = [0]
   \<and> waitList (park 0 element_awake registry_init) = []
   \<and> fst (wakeUp ''xyz'' (Some 404) (park 0 element_awake registry_init)) = False"
  by (simp add: shared_id_released_def shared_id_parked_def wakeUp_def findInList_def id_of_def
                park_def addToListAndWait_def poll_def leave_def registry_init_def
                element_sample_def element_awake_def)

lemma id_of_update [simp]:
  "id_of (s\<lparr>waitList := w\<rparr>) = id_of s"
  "id_of (s\<lparr>parked := p\<rparr>) = id_of s"
  "id_of (s\<lparr>returned := q\<rparr>) = id_of s"
  by (simp_all add: id_of_def fun_eq_iff)

lemma wakeUp_allocated: "objects s e \<noteq> None \<Longrightarrow> objects (snd (wakeUp i custom s)) e \<noteq> None"
  by (auto simp: wakeUp_def split: option.splits)

lemma registry_inv_init: "registry_inv registry_init"
  by (simp add: registry_inv_def registry_init_def)

lemma filter_id_distinct:
  assumes "distinct (map f xs)" and "r \<in> set xs"
  shows "set (filter (\<lambda>e. f e \<noteq> f r) xs) = set xs - {r}"
    and "distinct (map f (filter (\<lambda>e. f e \<noteq> f r) xs))"
  using assms by (auto simp: distinct_map inj_on_def distinct_map_filter)

lemma registry_inv_wakeUp:
  assumes "registry_inv s"
  shows "registry_inv (snd (wakeUp i custom s))"
proof -
  let ?s = "snd (wakeUp i custom s)"
  have l: "waitList ?s = waitList s" "parked ?s = parked s" by (simp_all add: wakeUp_lists)
  have "id_of ?s = id_of s" by (simp add: fun_eq_iff wakeUp_id_of)
  then have 2: "distinct (map (id_of ?s) (waitList ?s))"
    using assms by (simp only: l registry_inv_def)
  have 1: "list_all (\<lambda>e. objects ?s e \<noteq> None) (waitList ?s)"
    unfolding l list_all_iff
  proof
    fix e assume "e \<in> set (waitList s)"
    with assms have "objects s e \<noteq> None" by (simp add: registry_inv_def list_all_iff)
    then show "objects ?s e \<noteq> None" by (rule wakeUp_allocated)
  qed
  from assms have "set (parked ?s) = set (waitList ?s)" "distinct (parked ?s)"
    by (simp_all only: l registry_inv_def)
  with 1 2 show ?thesis by (simp only: registry_inv_def)
qed

lemma registry_inv_park:
  assumes inv: "registry_inv s" and ok: "step_distinct (Park r element) s"
  shows "registry_inv (park r element s)"
    and "set (waitList s) \<subseteq> set (waitList (park r element s))"
proof -
  from ok have new: "objects s r = None"
    and fresh: "\<forall>e\<in>set (waitList s). id_of s e \<noteq> Some (item_id element)"
    by (simp_all add: list_all_iff)
  from inv new have r: "r \<notin> set (waitList s)" "r \<notin> set (parked s)"
    by (auto simp: registry_inv_def list_all_iff)
  define s0 where "s0 = s\<lparr>objects := (objects s)(r \<mapsto> element)\<rparr>"
  have ids: "id_of s0 e = (if e = r then Some (item_id element) else id_of s e)" for e
    by (simp add: s0_def id_of_def)
  have m: "map (id_of s0) (waitList s) = map (id_of s) (waitList s)"
    using r by (auto simp: ids)
  have flt: "filter (\<lambda>e. e \<noteq> r \<and> (e \<noteq> r \<longrightarrow> id_of s e \<noteq> Some (item_id element))) (waitList s)
               = waitList s"
    using fresh r by (auto simp: filter_id_conv)
  have s0f: "objects s0 r = Some element" "waitList s0 = waitList s" "parked s0 = parked s"
    "returned s0 = returned s"
    by (simp_all add: s0_def)
  have p: "park r element s =
      (if sleep element then s0\<lparr>waitList := waitList s @ [r], parked := parked s @ [r]\<rparr>
       else s0\<lparr>waitList := waitList s, returned := returned s @ [r]\<rparr>)"
    by (simp add: park_def addToListAndWait_def leave_def s0_def [symmetric] Let_def s0f ids flt)
  from inv have a: "\<forall>e\<in>set (waitList s). objects s0 e \<noteq> None"
    by (auto simp: registry_inv_def list_all_iff s0_def)
  have d: "distinct (map (id_of s) (waitList s))" "set (parked s) = set (waitList s)"
    "distinct (parked s)"
    using inv by (simp_all add: registry_inv_def)
  show "registry_inv (park r element s)"
  proof (cases "sleep element")
    case True
    have "Some (item_id element) \<notin> set (map (id_of s) (waitList s))"
      using fresh by auto
    then show ?thesis
      using True a d r by (simp add: p registry_inv_def list_all_iff m ids [of r] s0f)
  next
    case False
    show ?thesis
      using False a d by (simp add: p registry_inv_def list_all_iff m s0f)
  qed
  show "set (waitList s) \<subseteq> set (waitList (park r element s))"
    by (auto simp: p)
qed

lemma registry_inv_poll:
  assumes inv: "registry_inv s" and ok: "step_distinct (Poll r) s"
  shows "registry_inv (poll r s)"
    and "e \<in> set (waitList s) \<Longrightarrow> e \<notin> set (waitList (poll r s))
           \<Longrightarrow> e = r \<and> (\<exists>el. objects s e = Some el \<and> \<not> sleep el)"
proof -
  from ok have rp: "r \<in> set (parked s)" by simp
  with inv have rl: "r \<in> set (waitList s)" by (simp add: registry_inv_def)
  with inv obtain el where el: "objects s r = Some el"
    by (auto simp: registry_inv_def list_all_iff)
  have d: "distinct (map (id_of s) (waitList s))" "set (parked s) = set (waitList s)"
    "distinct (parked s)" "\<forall>e\<in>set (waitList s). objects s e \<noteq> None"
    using inv by (simp_all add: registry_inv_def list_all_iff)
  define s' where "s' = s\<lparr>parked := remove1 r (parked s)\<rparr>"
  have ids: "id_of s' = id_of s" by (simp add: s'_def)
  have p: "poll r s = (if sleep el then s
       else s'\<lparr>waitList := filter (\<lambda>e. id_of s e \<noteq> id_of s r) (waitList s),
               returned := returned s @ [r]\<rparr>)"
    using rp el by (simp add: poll_def leave_def s'_def [symmetric] ids) (simp add: s'_def)
  note f = filter_id_distinct [OF d(1) rl]
  show "registry_inv (poll r s)"
  proof (cases "sleep el")
    case True
    with inv show ?thesis by (simp add: p)
  next
    case False
    let ?s = "s'\<lparr>waitList := filter (\<lambda>e. id_of s e \<noteq> id_of s r) (waitList s),
                  returned := returned s @ [r]\<rparr>"
    have i: "id_of ?s = id_of s" by (simp add: s'_def)
    have "objects ?s = objects s" by (simp add: s'_def)
    moreover have "set (remove1 r (parked s)) = set (parked s) - {r}"
      using d(3) by simp
    moreover have "distinct (remove1 r (parked s))" using d(3) by simp
    ultimately show ?thesis
      using False f d
      by (simp add: p registry_inv_def list_all_iff i) (simp add: s'_def)
  qed
  show "e = r \<and> (\<exists>el. objects s e = Some el \<and> \<not> sleep el)"
    if "e \<in> set (waitList s)" "e \<notin> set (waitList (poll r s))"
  proof (cases "sleep el")
    case True
    with that show ?thesis by (simp add: p)
  next
    case False
    with that have "e \<notin> set (filter (\<lambda>e. id_of s e \<noteq> id_of s r) (waitList s))"
      by (simp add: p)
    with f(1) that(1) have "e = r" by blast
    with el False show ?thesis by simp
  qed
qed

lemma registry_inv_step:
  assumes "registry_inv s" and "step_distinct a s"
  shows "registry_inv (do_step a s)"
  using assms registry_inv_park(1) registry_inv_poll(1) registry_inv_wakeUp
  by (cases a) auto

lemma run_distinct_inv:
  assumes "registry_inv s" and "run_distinct as s = Some s'"
  shows "registry_inv s'"
  using assms
proof (induction as arbitrary: s)
  case Nil
  then show ?case by simp
next
  case (Cons a as)
  then show ?case using registry_inv_step by (auto split: if_splits)
qed

lemma removed_only_by_own_poll:
  assumes inv: "registry_inv s" and ok: "step_distinct a s"
    and e: "e \<in> set (waitList s)" "e \<notin> set (waitList (do_step a s))"
  shows "a = Poll e \<and> (\<exists>el. objects s e = Some el \<and> \<not> sleep el)"
proof (cases a)
  case (Park r element)
  with registry_inv_park(2) [OF inv] ok e show ?thesis by auto
next
  case (Poll r)
  with registry_inv_poll(2) [OF inv] ok e show ?thesis by auto
next
  case (WakeUp i custom)
  with e show ?thesis by (simp add: wakeUp_lists)
qed

lemma release_finds_listed:
  assumes inv: "registry_inv s" and e: "e \<in> set (waitList s)" "objects s e = Some el"
  shows "fst (wakeUp (item_id el) custom s) = True"
proof -
  from e have "id_of s e = Some (item_id el)" by (simp add: id_of_def)
  with e(1) have "findInList s (item_id el) \<noteq> None"
    by (auto simp: findInList_def find_None_iff)
  then obtain e' where f: "findInList s (item_id el) = Some e'" by blast
  then have "e' \<in> set (waitList s)" by (auto simp: findInList_def find_Some_iff)
  with inv obtain el' where "objects s e' = Some el'"
    by (auto simp: registry_inv_def list_all_iff)
  with f show ?thesis by (simp add: wakeUp_def)
qed


text \<open>
  Claim C10, as amended. In every state of a history in which the parked elements have
  pairwise distinct ids: a release changes neither the wait list nor the suspended
  calls nor the id of any element; the list holds exactly the elements of the calls
  suspended in \<open>addToListAndWait\<close>; a step takes an element off the list only when it
  is the wake-up of the call of that element and the flag of the element is cleared;
  and while the call of a released element is still suspended, the element is in the
  list and a release with its id returns true.
\<close>

theorem entries_are_suspended_calls:
  assumes "run_distinct steps registry_init = Some s"
  shows "(\<forall>i custom. waitList (snd (wakeUp i custom s)) = waitList s
            \<and> parked (snd (wakeUp i custom s)) = parked s
            \<and> (\<forall>e. id_of (snd (wakeUp i custom s)) e = id_of s e))
    \<and> set (waitList s) = set (parked s)
    \<and> (\<forall>a e. step_distinct a s \<and> e \<in> set (waitList s) \<and> e \<notin> set (waitList (do_step a s))
           \<longrightarrow> a = Poll e \<and> (\<exists>el. objects s e = Some el \<and> \<not> sleep el))
    \<and> (\<forall>e el custom. e \<in> set (parked s) \<and> objects s e = Some el \<and> \<not> sleep el
           \<longrightarrow> e \<in> set (waitList s) \<and> fst (wakeUp (item_id el) custom s) = True)"
proof -
  have inv: "registry_inv s" using run_distinct_inv [OF registry_inv_init assms] .
  have 1: "\<forall>i custom. waitList (snd (wakeUp i custom s)) = waitList s
            \<and> parked (snd (wakeUp i custom s)) = parked s
            \<and> (\<forall>e. id_of (snd (wakeUp i custom s)) e = id_of s e)"
    by (simp add: wakeUp_lists wakeUp_id_of)
  have 2: "set (waitList s) = set (parked s)" using inv by (simp add: registry_inv_def)
  have 3: "\<forall>a e. step_distinct a s \<and> e \<in> set (waitList s) \<and> e \<notin> set (waitList (do_step a s))
           \<longrightarrow> a = Poll e \<and> (\<exists>el. objects s e = Some el \<and> \<not> sleep el)"
    using removed_only_by_own_poll [OF inv] by blast
  have 4: "\<forall>e el custom. e \<in> set (parked s) \<and> objects s e = Some el \<and> \<not> sleep el
           \<longrightarrow> e \<in> set (waitList s) \<and> fst (wakeUp (item_id el) custom s) = True"
    using release_finds_listed [OF inv] 2 by blast
  from 1 2 3 4 show ?thesis by blast
qed

theorem entries_are_suspended_calls_witness:
  "run_distinct [Park 0 element_sample, WakeUp ''abc'' (Some 404)] registry_init
     = Some (snd (wakeUp ''abc'' (Some 404) (park 0 element_sample registry_init)))
   \<and> parked (snd (wakeUp ''abc'' (Some 404) (park 0 element_sample registry_init))) = [0]
   \<and> map_option sleep (objects (snd (wakeUp ''abc'' (Some 404) (park 0 element_sample registry_init))) 0)
       = Some False
   \<and> 0 \<in> set (waitList (snd (wakeUp ''abc'' (Some 404) (park 0 element_sample registry_init))))
   \<and> fst (wakeUp ''abc'' None (snd (wakeUp ''abc'' (Some 404) (park 0 element_sample registry_init))))
       = True"
proof -
  let ?s = "snd (wakeUp ''abc'' (Some 404) (park 0 element_sample registry_init))"
  have r: "run_distinct [Park 0 element_sample, WakeUp ''abc'' (Some 404)] registry_init = Some ?s"
    by (simp add: registry_init_def)
  have p: "parked ?s = [0]"
    by (simp add: wakeUp_lists)
       (simp add: park_def addToListAndWait_def registry_init_def element_sample_def)
  have o: "objects ?s 0 = Some \<lparr>item_id = ''abc'', sleep = False, customResponse = Some 404\<rparr>"
    by (simp add: wakeUp_def findInList_def id_of_def park_def addToListAndWait_def
                  registry_init_def element_sample_def)
  from entries_are_suspended_calls [OF r] p o
  have "0 \<in> set (waitList ?s) \<and> fst (wakeUp ''abc'' None ?s) = True"
    by (metis item.select_convs(1) item.select_convs(2) list.set_intros(1))
  with r p o show ?thesis by simp
qed

text \<open>
  Claim C10 as stated fails when two parked elements have the same id. Two elements
  with the id \<open>abc\<close> are parked and one release is made, which clears the flag of the
  first. At its wake-up the call of the first element takes every element with that id
  off the list: the second element is gone from the list, although its own call is
  still suspended and its flag is still set.
\<close>

theorem shared_id_counterexample:
  "1 \<in> set (waitList shared_id_history)
   \<and> 1 \<notin> set (waitList (poll 0 shared_id_history))
   \<and> 1 \<in> set (parked (poll 0 shared_id_history))
   \<and> map_option sleep (objects (poll 0 shared_id_history) 1) = Some True"
  by (simp add: shared_id_history_def wakeUp_def findInList_def id_of_def park_def
                addToListAndWait_def poll_def leave_def registry_init_def element_sample_def)

section \<open>Properties of the rendering\<close>







section \<open>Properties of the conditional overrides\<close>

text \<open>
  As long as no evaluation lets an exception escape, the loop of \<open>checkRoute\<close> applies
  the first accepted condition to the defaults, or keeps the defaults when there is
  none; and a condition overwrites only the fields it sets.
\<close>

lemma route_conditions_first_match:
  assumes "\<forall>c\<in>set cs. \<exists>ev. evaluateCriteria nf run (Some (criteria c)) ctx = Returns ev"
  shows "route_conditions_loop nf run Number ctx cs r =
           Returns (case find (accepted nf run ctx) cs of
                      None \<Rightarrow> r
                    | Some c \<Rightarrow> apply_condition Number c r)"
  using assms by (induction cs) (auto simp: accepted_def split: outcome.splits)

lemma fallback_conditions_first_match:
  assumes "\<forall>c\<in>set cs. \<exists>ev. evaluateCriteria nf run (Some (criteria c)) ctx = Returns ev"
  shows "fallback_conditions_loop nf run parseInt ctx cs r =
           Returns (case find (\<lambda>c. c_activo c \<noteq> None \<and> c_activo c \<noteq> Some 0 \<and> accepted nf run ctx c) cs of
                      None \<Rightarrow> r
                    | Some c \<Rightarrow> apply_fallback_condition parseInt c r)"
  using assms by (induction cs) (auto simp: accepted_def split: outcome.splits)

lemma apply_condition_unset:
  "c_codigo c = None \<Longrightarrow> responseCode (apply_condition Number c r) = responseCode r"
  "c_tiporespuesta c = None \<Longrightarrow> responseType (apply_condition Number c r) = responseType r"
  "c_respuesta c = None \<Longrightarrow> responseBody (apply_condition Number c r) = responseBody r"
  "c_customHeaders c = None \<Longrightarrow> responseHeaders (apply_condition Number c r) = responseHeaders r"
  by (simp_all add: apply_condition_def truthy_def)

lemma apply_fallback_condition_unset:
  "c_codigo c = None \<Longrightarrow> responseCode (apply_fallback_condition parseInt c r) = responseCode r"
  "c_tiporespuesta c = None \<Longrightarrow> responseType (apply_fallback_condition parseInt c r) = responseType r"
  "c_respuesta c = None \<Longrightarrow> responseBody (apply_fallback_condition parseInt c r) = responseBody r"
  "c_customHeaders c = None \<Longrightarrow> responseHeaders (apply_fallback_condition parseInt c r) = responseHeaders r"
  by (simp_all add: apply_fallback_condition_def truthy_def)

text \<open>
  Claim C3 at its failing input. The route has two active conditions: the first throws
  \<open>null\<close>, the second evaluates to true and sets the status code 404, so the second
  is the first condition whose predicate evaluates true. The exception that escapes the
  evaluation of the first ends the loop of \<open>checkRoute\<close>, whose catch block keeps the
  defaults of the route: the status code stays 200 and the second condition is never
  evaluated. With the same conditions on a fallback, the exception escapes
  \<open>sendFallbackResponse\<close>.
\<close>

theorem first_true_condition_skipped:
  "getConditionalResponses conditions_sample (row_id route_sample) = conditions_sample
   \<and> accepted new_Function_sample run_sample () (conditions_sample ! 1)
   \<and> responseCode (apply_condition number_sample (conditions_sample ! 1)
                     (route_defaults number_sample route_sample)) = Some 404
   \<and> route_conditions_stage new_Function_sample run_sample number_sample () conditions_sample
        route_sample = Returns (route_defaults number_sample route_sample)
   \<and> responseCode (route_defaults number_sample route_sample) = Some 200
   \<and> fallback_conditions_stage new_Function_sample run_sample number_sample () fallback_sample
       = Escapes_TypeError"
  by code_simp

section \<open>Properties of the proxy exchange\<close>

lemma exchange_inv_start: "exchange_inv exchange_start"
  by (simp add: exchange_inv_def exchange_start_def)

lemma deliver_inv:
  assumes "exchange_inv x" and "deliver e x = Some x'"
  shows "exchange_inv x'"
  using assms
  by (cases e)
     (auto simp: exchange_inv_def on_response_def on_timeout_def on_error_def render_def
                 clear_timer_def Let_def split: if_splits fallback_attempt.splits option.splits)

lemma deliver_after_write:
  assumes "exchange_inv x" and "headersSent x" and "deliver e x = Some x'"
  shows "renders x' = renders x"
  using assms
  by (cases e)
     (auto simp: exchange_inv_def on_response_def on_timeout_def on_error_def render_def
                 clear_timer_def Let_def split: if_splits fallback_attempt.splits option.splits)

lemma deliver_all_inv:
  assumes "exchange_inv x" and "deliver_all es x = Some x'"
  shows "exchange_inv x'"
  using assms
proof (induction es arbitrary: x)
  case Nil
  then show ?case by simp
next
  case (Cons e es)
  from Cons.prems obtain y where y: "deliver e x = Some y" and r: "deliver_all es y = Some x'"
    by (auto split: option.splits)
  from deliver_inv [OF Cons.prems(1) y] have "exchange_inv y" .
  from Cons.IH [OF this r] show ?case .
qed

text \<open>
  Claim C5. Along every sequence of timer, response and error events that the
  runtime can deliver to one exchange, the callbacks write at most one response to the
  caller; a response has been written exactly when the headers are sent; and once
  they are sent, no callback that can still run writes again.
\<close>

theorem exchange_single_write:
  assumes "deliver_all es exchange_start = Some x"
  shows "renders x \<le> 1 \<and> (renders x = 1 \<longleftrightarrow> headersSent x)
         \<and> (\<forall>e x'. headersSent x \<and> deliver e x = Some x' \<longrightarrow> renders x' = renders x)"
proof -
  have inv: "exchange_inv x" using deliver_all_inv [OF exchange_inv_start assms] .
  then have "renders x \<le> 1 \<and> (renders x = 1 \<longleftrightarrow> headersSent x)"
    by (auto simp: exchange_inv_def)
  moreover have "\<forall>e x'. headersSent x \<and> deliver e x = Some x' \<longrightarrow> renders x' = renders x"
    using deliver_after_write [OF inv] by blast
  ultimately show ?thesis by blast
qed

theorem exchange_single_write_witness:
  "(\<exists>x. deliver_all [TimerFires NoFallback, UpstreamError (Some ''connection'') FallbackSent]
          exchange_start = Some x
        \<and> timeoutTriggered x \<and> headersSent x \<and> renders x = 1)
   \<and> (\<exists>x. deliver_all [Response 200 NoFallback False, UpstreamError (Some ''connection'') FallbackSent]
          exchange_start = Some x
        \<and> \<not> timer_scheduled x \<and> headersSent x \<and> renders x = 1)
   \<and> deliver_all [TimerFires NoFallback, Response 200 NoFallback False] exchange_start = None
   \<and> deliver_all [UpstreamError None NoFallback, TimerFires NoFallback] exchange_start = None"
proof -
  obtain x where x: "deliver_all [TimerFires NoFallback, UpstreamError (Some ''connection'') FallbackSent]
                       exchange_start = Some x"
    and tx: "timeoutTriggered x" "headersSent x"
    by (simp add: exchange_start_def on_timeout_def on_error_def render_def clear_timer_def)
  obtain y where y: "deliver_all [Response 200 NoFallback False, UpstreamError (Some ''connection'') FallbackSent]
                       exchange_start = Some y"
    and ty: "\<not> timer_scheduled y" "headersSent y"
    by (simp add: exchange_start_def on_response_def on_error_def render_def clear_timer_def)
  have a: "deliver_all [TimerFires NoFallback, Response 200 NoFallback False] exchange_start = None"
    by (simp add: exchange_start_def on_timeout_def render_def)
  have b: "deliver_all [UpstreamError None NoFallback, TimerFires NoFallback] exchange_start = None"
    by (simp add: exchange_start_def on_error_def render_def clear_timer_def)
  from exchange_single_write [OF x] tx have "renders x = 1" by blast
  moreover from exchange_single_write [OF y] ty have "renders y = 1" by blast
  ultimately show ?thesis using x y tx ty a b by blast
qed

end
